theory Spec2Isabelle
  imports Main "HOL-Library.List_Lexorder"
begin

section \<open>Basic types\<close>

text \<open>
  Epochs and slots are JavaScript numbers holding integers; the subtraction in
  \<open>startSyncing\<close> can go below zero, so they are \<open>int\<close>. A peer is identified by its
  id (\<open>toB58String\<close>), a root by its bytes, a signed block by an opaque number.
\<close>

type_synonym Epoch = int
type_synonym Slot = int
type_synonym PeerId = nat
type_synonym Root = "nat list"
type_synonym SignedBeaconBlock = nat

text \<open>
  The configuration carries \<open>params.SLOTS_PER_EPOCH\<close>. \<open>hashBlocks(config, blocks)\<close> of
  \<open>./utils\<close> is not among the sources; it is carried here as a parameter.
\<close>

record IBeaconConfig =
  SLOTS_PER_EPOCH :: int
  hashBlocks :: "SignedBeaconBlock list \<Rightarrow> Root"

text \<open>
  Modelled from the spec: \<open>computeStartSlotAtEpoch\<close> (package beacon-state-transition) is
  not among the sources. The spec has one epoch equal \<open>SLOTS_PER_EPOCH\<close> slots and a
  batch start at \<open>startEpoch \<cdot> SLOTS_PER_EPOCH + 1\<close>.
\<close>

definition computeStartSlotAtEpoch :: "IBeaconConfig \<Rightarrow> Epoch \<Rightarrow> Slot" where
  "computeStartSlotAtEpoch config epoch = epoch * SLOTS_PER_EPOCH config"

text \<open>
  Constants. \<open>EPOCHS_PER_BATCH\<close> and \<open>BATCH_BUFFER_SIZE\<close> are declared in
  asStateMachine/chain.ts; the others live in sync/constants, which is not among the
  sources, and carry the defaults the spec lists.
\<close>

definition EPOCHS_PER_BATCH :: int where "EPOCHS_PER_BATCH = 2"
definition BATCH_BUFFER_SIZE :: nat where "BATCH_BUFFER_SIZE = 5"
definition BATCH_SLOT_OFFSET :: int where "BATCH_SLOT_OFFSET = 1"
definition MAX_DOWNLOAD_ATTEMPTS :: nat where "MAX_DOWNLOAD_ATTEMPTS = 5"
definition MAX_BATCH_PROCESSING_ATTEMPTS :: nat where "MAX_BATCH_PROCESSING_ATTEMPTS = 3"
definition MIN_FINALIZED_CHAIN_VALIDATED_EPOCHS :: int where
  "MIN_FINALIZED_CHAIN_VALIDATED_EPOCHS = 10"
definition PARALLEL_HEAD_CHAINS :: nat where "PARALLEL_HEAD_CHAINS = 2"

section \<open>Errors\<close>

datatype BatchErrorCode = WRONG_BATCH_STATE | MAX_DOWNLOAD_ATTEMPTS_CODE | MAX_PROCESSING_ATTEMPTS

datatype thrown =
    WrongStateError string
  | BatchError BatchErrorCode
  | SyncChainStartError
  | ErrorAborted
  | JsError string

section \<open>Batch (asStateMachine/batch.ts)\<close>

datatype BatchStatus =
  AwaitingDownload | Downloading | AwaitingProcessing | Processing | AwaitingValidation

record Attempt =
  peer :: PeerId
  hash :: Root

datatype BatchState =
    StAwaitingDownload
  | StDownloading PeerId "SignedBeaconBlock list"
  | StAwaitingProcessing PeerId "SignedBeaconBlock list"
  | StProcessing Attempt
  | StAwaitingValidation Attempt

fun status :: "BatchState \<Rightarrow> BatchStatus" where
  "status StAwaitingDownload = AwaitingDownload"
| "status (StDownloading p bs) = Downloading"
| "status (StAwaitingProcessing p bs) = AwaitingProcessing"
| "status (StProcessing a) = Processing"
| "status (StAwaitingValidation a) = AwaitingValidation"

record BeaconBlocksByRangeRequest =
  startSlot :: Slot
  count :: int
  step :: int

text \<open>
  The class keeps the start epoch in \<open>id\<close>; range/chain.ts and the batch helpers read it
  as \<open>batch.startEpoch\<close>, the name used here.
\<close>

record Batch =
  startEpoch :: Epoch
  state :: BatchState
  request :: BeaconBlocksByRangeRequest
  failedProcessingAttempts :: "Attempt list"
  failedDownloadAttempts :: "PeerId list"

definition new_Batch :: "IBeaconConfig \<Rightarrow> Epoch \<Rightarrow> int \<Rightarrow> Batch" where
  "new_Batch config startEpoch' numOfEpochs =
     (let startSlot' = computeStartSlotAtEpoch config startEpoch' + 1;
          endSlot = startSlot' + numOfEpochs * SLOTS_PER_EPOCH config
      in \<lparr> startEpoch = startEpoch',
           state = StAwaitingDownload,
           request = \<lparr> startSlot = startSlot', count = endSlot - startSlot', step = 1 \<rparr>,
           failedProcessingAttempts = [],
           failedDownloadAttempts = [] \<rparr>)"

definition getFailedPeers :: "Batch \<Rightarrow> PeerId list" where
  "getFailedPeers b = failedDownloadAttempts b @ map peer (failedProcessingAttempts b)"

definition startDownloading :: "PeerId \<Rightarrow> Batch \<Rightarrow> thrown + Batch" where
  "startDownloading p b =
     (case state b of
        StAwaitingDownload \<Rightarrow> Inr (b\<lparr>state := StDownloading p []\<rparr>)
      | _ \<Rightarrow> Inl (WrongStateError ''Starting download for batch in wrong state''))"

definition downloadingSuccess :: "SignedBeaconBlock list \<Rightarrow> Batch \<Rightarrow> thrown + Batch" where
  "downloadingSuccess blocks b =
     (case state b of
        StDownloading p _ \<Rightarrow> Inr (b\<lparr>state := StAwaitingProcessing p blocks\<rparr>)
      | _ \<Rightarrow> Inl (WrongStateError ''Download completed for batch in wrong state''))"


definition startProcessing ::
  "IBeaconConfig \<Rightarrow> Batch \<Rightarrow> thrown + (SignedBeaconBlock list \<times> Batch)" where
  "startProcessing config b =
     (case state b of
        StAwaitingProcessing p blocks \<Rightarrow>
          Inr (blocks, b\<lparr>state := StProcessing \<lparr>peer = p, hash = hashBlocks config blocks\<rparr>\<rparr>)
      | _ \<Rightarrow> Inl (WrongStateError ''Starting procesing batch in wrong state''))"

definition processingSuccess :: "Batch \<Rightarrow> thrown + Batch" where
  "processingSuccess b =
     (case state b of
        StProcessing a \<Rightarrow> Inr (b\<lparr>state := StAwaitingValidation a\<rparr>)
      | _ \<Rightarrow> Inl (WrongStateError ''Procesing completed for batch in wrong state''))"

definition processingError :: "Batch \<Rightarrow> thrown + Batch" where
  "processingError b =
     (case state b of
        StProcessing a \<Rightarrow>
          Inr (b\<lparr>failedProcessingAttempts := failedProcessingAttempts b @ [a],
                 state := StAwaitingDownload\<rparr>)
      | _ \<Rightarrow> Inl (WrongStateError ''Procesing completed for batch in wrong state''))"

definition validationError :: "Batch \<Rightarrow> thrown + Batch" where
  "validationError b =
     (case state b of
        StAwaitingValidation a \<Rightarrow>
          Inr (b\<lparr>failedProcessingAttempts := failedProcessingAttempts b @ [a],
                 state := StAwaitingDownload\<rparr>)
      | _ \<Rightarrow> Inl (WrongStateError ''Procesing completed for batch in wrong state''))"

section \<open>Batch (range/batch.ts)\<close>

text \<open>
  Modelled from the spec: the Batch class that range/chain.ts imports from \<open>./batch\<close> is
  not among the sources (the class above is the one of asStateMachine, which has no
  retry caps and no \<open>validationSuccess\<close>). Its methods follow the transition table of
  the spec: each method moves the batch from its "From" state to its "To" state with the
  side effect listed, and fails fast with \<open>WrongBatchState\<close> in every other state.
  \<open>downloadingError\<close> appends the peer and fails with \<open>MaxDownloadAttempts\<close> if the count
  of failed downloads has reached \<open>MAX_DOWNLOAD_ATTEMPTS\<close>; \<open>processingError\<close> and
  \<open>validationError\<close> append the attempt and fail with \<open>MaxProcessingAttempts\<close> if the
  count of failed attempts has reached the processing cap (the third failure, in the
  spec's scenario 5). \<open>validationSuccess\<close> returns the stored attempt. A method with a
  cap returns the batch as the call leaves it together with the error, if any.
\<close>

definition range_startDownloading :: "PeerId \<Rightarrow> Batch \<Rightarrow> thrown + Batch" where
  "range_startDownloading p b =
     (case state b of
        StAwaitingDownload \<Rightarrow> Inr (b\<lparr>state := StDownloading p []\<rparr>)
      | _ \<Rightarrow> Inl (BatchError WRONG_BATCH_STATE))"

definition range_downloadingSuccess ::
  "SignedBeaconBlock list \<Rightarrow> Batch \<Rightarrow> thrown + Batch" where
  "range_downloadingSuccess blocks b =
     (case state b of
        StDownloading p _ \<Rightarrow> Inr (b\<lparr>state := StAwaitingProcessing p blocks\<rparr>)
      | _ \<Rightarrow> Inl (BatchError WRONG_BATCH_STATE))"

definition range_downloadingError :: "Batch \<Rightarrow> thrown option \<times> Batch" where
  "range_downloadingError b =
     (case state b of
        StDownloading p _ \<Rightarrow>
          let b' = b\<lparr>failedDownloadAttempts := failedDownloadAttempts b @ [p],
                      state := StAwaitingDownload\<rparr>
          in (if length (failedDownloadAttempts b') \<ge> MAX_DOWNLOAD_ATTEMPTS
              then Some (BatchError MAX_DOWNLOAD_ATTEMPTS_CODE) else None, b')
      | _ \<Rightarrow> (Some (BatchError WRONG_BATCH_STATE), b))"

definition range_startProcessing ::
  "IBeaconConfig \<Rightarrow> Batch \<Rightarrow> thrown + (SignedBeaconBlock list \<times> Batch)" where
  "range_startProcessing config b =
     (case state b of
        StAwaitingProcessing p blocks \<Rightarrow>
          Inr (blocks, b\<lparr>state := StProcessing \<lparr>peer = p, hash = hashBlocks config blocks\<rparr>\<rparr>)
      | _ \<Rightarrow> Inl (BatchError WRONG_BATCH_STATE))"

definition range_processingSuccess :: "Batch \<Rightarrow> thrown + Batch" where
  "range_processingSuccess b =
     (case state b of
        StProcessing a \<Rightarrow> Inr (b\<lparr>state := StAwaitingValidation a\<rparr>)
      | _ \<Rightarrow> Inl (BatchError WRONG_BATCH_STATE))"

definition failedAttempt :: "Attempt \<Rightarrow> Batch \<Rightarrow> thrown option \<times> Batch" where
  "failedAttempt a b =
     (let b' = b\<lparr>failedProcessingAttempts := failedProcessingAttempts b @ [a],
                 state := StAwaitingDownload\<rparr>
      in (if length (failedProcessingAttempts b') \<ge> MAX_BATCH_PROCESSING_ATTEMPTS
          then Some (BatchError MAX_PROCESSING_ATTEMPTS) else None, b'))"

definition range_processingError :: "Batch \<Rightarrow> thrown option \<times> Batch" where
  "range_processingError b =
     (case state b of
        StProcessing a \<Rightarrow> failedAttempt a b
      | _ \<Rightarrow> (Some (BatchError WRONG_BATCH_STATE), b))"

definition range_validationError :: "Batch \<Rightarrow> thrown option \<times> Batch" where
  "range_validationError b =
     (case state b of
        StAwaitingValidation a \<Rightarrow> failedAttempt a b
      | _ \<Rightarrow> (Some (BatchError WRONG_BATCH_STATE), b))"

definition validationSuccess :: "Batch \<Rightarrow> thrown + Attempt" where
  "validationSuccess b =
     (case state b of
        StAwaitingValidation a \<Rightarrow> Inr a
      | _ \<Rightarrow> Inl (BatchError WRONG_BATCH_STATE))"

section \<open>Batch ordering helpers (range/utils/batches.ts)\<close>

fun validateBatchesStatus_loop :: "nat \<Rightarrow> nat \<Rightarrow> Batch list \<Rightarrow> thrown + unit" where
  "validateBatchesStatus_loop processing preProcessing [] = Inr ()"
| "validateBatchesStatus_loop processing preProcessing (batch # rest) =
     (case status (state batch) of
        AwaitingValidation \<Rightarrow>
          if processing > 0 then Inl (JsError ''AwaitingValidation state found after Processing'')
          else if preProcessing > 0
            then Inl (JsError ''AwaitingValidation state found after PreProcessing'')
          else validateBatchesStatus_loop processing preProcessing rest
      | Processing \<Rightarrow>
          if preProcessing > 0 then Inl (JsError ''Processing state found after PreProcessing'')
          else if processing > 0 then Inl (JsError ''More than one Processing state found'')
          else validateBatchesStatus_loop (processing + 1) preProcessing rest
      | AwaitingDownload \<Rightarrow> validateBatchesStatus_loop processing (preProcessing + 1) rest
      | Downloading \<Rightarrow> validateBatchesStatus_loop processing (preProcessing + 1) rest
      | AwaitingProcessing \<Rightarrow> validateBatchesStatus_loop processing (preProcessing + 1) rest)"

definition validateBatchesStatus :: "Batch list \<Rightarrow> thrown + unit" where
  "validateBatchesStatus batches = validateBatchesStatus_loop 0 0 batches"

fun getNextBatchToProcess :: "Batch list \<Rightarrow> Batch option" where
  "getNextBatchToProcess [] = None"
| "getNextBatchToProcess (batch # rest) =
     (case status (state batch) of
        AwaitingValidation \<Rightarrow> getNextBatchToProcess rest
      | AwaitingProcessing \<Rightarrow> Some batch
      | AwaitingDownload \<Rightarrow> None
      | Downloading \<Rightarrow> None
      | Processing \<Rightarrow> None)"

definition toBeProcessedStartEpoch :: "Batch list \<Rightarrow> Epoch \<Rightarrow> int \<Rightarrow> Epoch" where
  "toBeProcessedStartEpoch batches startEpoch' epochsPerBatch =
     (let startEpochs =
            map startEpoch (filter (\<lambda>batch. status (state batch) = AwaitingValidation) batches)
      in if length startEpochs > 0 then Max (set startEpochs) + epochsPerBatch else startEpoch')"

definition toBeDownloadedStartEpoch :: "Batch list \<Rightarrow> Epoch \<Rightarrow> int \<Rightarrow> Epoch" where
  "toBeDownloadedStartEpoch batches startEpoch' epochsPerBatch =
     (case rev batches of
        [] \<Rightarrow> startEpoch'
      | lastBatch # _ \<Rightarrow> startEpoch lastBatch + epochsPerBatch)"

text \<open>
  The status pattern of the spec, in its own words:
  \<open>AwaitingValidation* Processing? (AwaitingDownload | Downloading | AwaitingProcessing)*\<close>.
\<close>

definition isPreProcessing :: "BatchStatus \<Rightarrow> bool" where
  "isPreProcessing s = (s = AwaitingDownload \<or> s = Downloading \<or> s = AwaitingProcessing)"

definition batches_pattern :: "BatchStatus list \<Rightarrow> bool" where
  "batches_pattern ss =
     (\<exists>vs ps ds. ss = vs @ ps @ ds
        \<and> list_all (\<lambda>s. s = AwaitingValidation) vs
        \<and> (ps = [] \<or> ps = [Processing])
        \<and> list_all isPreProcessing ds)"

text \<open>
  Values for the worked examples: 32 slots per epoch, blocks hashed by their list of
  numbers, and a batch of two epochs placed in a given state.
\<close>

definition exampleConfig :: IBeaconConfig where
  "exampleConfig = \<lparr> SLOTS_PER_EPOCH = 32, hashBlocks = (\<lambda>blocks. blocks) \<rparr>"

definition batchIn :: "Epoch \<Rightarrow> BatchState \<Rightarrow> Batch" where
  "batchIn e st = (new_Batch exampleConfig e 2)\<lparr>state := st\<rparr>"

section \<open>The status pattern\<close>

lemma pattern_Nil: "batches_pattern []"
  by (simp add: batches_pattern_def)

lemma pattern_pre: "list_all isPreProcessing ss \<Longrightarrow> batches_pattern ss"
  unfolding batches_pattern_def
  by (rule exI [of _ "[]"], rule exI [of _ "[]"], rule exI [of _ ss]) simp

lemma pattern_AwaitingValidation:
  "batches_pattern (AwaitingValidation # ss) = batches_pattern ss"
proof
  assume "batches_pattern (AwaitingValidation # ss)"
  then obtain vs ps ds where d: "AwaitingValidation # ss = vs @ ps @ ds"
    and v: "list_all (\<lambda>s. s = AwaitingValidation) vs"
    and p: "ps = [] \<or> ps = [Processing]"
    and q: "list_all isPreProcessing ds"
    unfolding batches_pattern_def by blast
  show "batches_pattern ss"
  proof (cases vs)
    case (Cons v vs')
    with d v have "ss = vs' @ ps @ ds" "list_all (\<lambda>s. s = AwaitingValidation) vs'"
      by simp_all
    with p q show ?thesis unfolding batches_pattern_def by blast
  next
    case Nil
    with d p q have False
      by (cases ds) (auto simp: isPreProcessing_def)
    then show ?thesis ..
  qed
next
  assume "batches_pattern ss"
  then obtain vs ps ds where "ss = vs @ ps @ ds"
    and "list_all (\<lambda>s. s = AwaitingValidation) vs"
    and "ps = [] \<or> ps = [Processing]"
    and "list_all isPreProcessing ds"
    unfolding batches_pattern_def by blast
  then have "AwaitingValidation # ss = (AwaitingValidation # vs) @ ps @ ds
      \<and> list_all (\<lambda>s. s = AwaitingValidation) (AwaitingValidation # vs)
      \<and> (ps = [] \<or> ps = [Processing]) \<and> list_all isPreProcessing ds"
    by simp
  then show "batches_pattern (AwaitingValidation # ss)"
    unfolding batches_pattern_def by blast
qed

lemma pattern_Processing:
  "batches_pattern (Processing # ss) = list_all isPreProcessing ss"
proof
  assume "batches_pattern (Processing # ss)"
  then obtain vs ps ds where d: "Processing # ss = vs @ ps @ ds"
    and v: "list_all (\<lambda>s. s = AwaitingValidation) vs"
    and p: "ps = [] \<or> ps = [Processing]"
    and q: "list_all isPreProcessing ds"
    unfolding batches_pattern_def by blast
  from d v have vs: "vs = []" by (cases vs) auto
  from p show "list_all isPreProcessing ss"
  proof
    assume "ps = []"
    with d vs q show ?thesis by (cases ds) (auto simp: isPreProcessing_def)
  next
    assume "ps = [Processing]"
    with d vs q show ?thesis by simp
  qed
next
  assume "list_all isPreProcessing ss"
  then have "Processing # ss = [] @ [Processing] @ ss
      \<and> list_all (\<lambda>s. s = AwaitingValidation) []
      \<and> ([Processing] = [] \<or> [Processing] = [Processing]) \<and> list_all isPreProcessing ss"
    by simp
  then show "batches_pattern (Processing # ss)"
    unfolding batches_pattern_def by blast
qed

lemma pattern_preProcessing:
  assumes "isPreProcessing s"
  shows "batches_pattern (s # ss) = list_all isPreProcessing ss"
proof
  assume "batches_pattern (s # ss)"
  then obtain vs ps ds where d: "s # ss = vs @ ps @ ds"
    and v: "list_all (\<lambda>s. s = AwaitingValidation) vs"
    and p: "ps = [] \<or> ps = [Processing]"
    and q: "list_all isPreProcessing ds"
    unfolding batches_pattern_def by blast
  from d v assms have vs: "vs = []" by (cases vs) (auto simp: isPreProcessing_def)
  from d vs assms have ps: "ps \<noteq> [Processing]" by (auto simp: isPreProcessing_def)
  with p have "ps = []" by simp
  with d vs q show "list_all isPreProcessing ss" by (cases ds) auto
next
  assume "list_all isPreProcessing ss"
  with assms have "list_all isPreProcessing (s # ss)" by simp
  then show "batches_pattern (s # ss)" by (rule pattern_pre)
qed

lemma loop_after_first:
  "0 < processing \<or> 0 < preProcessing \<Longrightarrow>
     (validateBatchesStatus_loop processing preProcessing bs = Inr ())
       = list_all isPreProcessing (map (\<lambda>b. status (state b)) bs)"
proof (induction bs arbitrary: processing preProcessing)
  case Nil
  show ?case by simp
next
  case (Cons b bs)
  show ?case
  proof (cases "status (state b)")
    case AwaitingValidation
    with Cons.prems show ?thesis by (auto simp: isPreProcessing_def)
  next
    case Processing
    with Cons.prems show ?thesis by (auto simp: isPreProcessing_def)
  next
    case AwaitingDownload
    then show ?thesis using Cons.IH [of processing "preProcessing + 1"]
      by (simp add: isPreProcessing_def)
  next
    case Downloading
    then show ?thesis using Cons.IH [of processing "preProcessing + 1"]
      by (simp add: isPreProcessing_def)
  next
    case AwaitingProcessing
    then show ?thesis using Cons.IH [of processing "preProcessing + 1"]
      by (simp add: isPreProcessing_def)
  qed
qed

lemma loop_from_start:
  "(validateBatchesStatus_loop 0 0 bs = Inr ())
     = batches_pattern (map (\<lambda>b. status (state b)) bs)"
proof (induction bs)
  case Nil
  show ?case by (simp add: pattern_Nil)
next
  case (Cons b bs)
  show ?case
  proof (cases "status (state b)")
    case AwaitingValidation
    then show ?thesis using Cons.IH by (simp add: pattern_AwaitingValidation)
  next
    case Processing
    then show ?thesis using loop_after_first [of 1 0 bs]
      by (simp add: pattern_Processing)
  next
    case AwaitingDownload
    then show ?thesis using loop_after_first [of 0 1 bs]
      by (simp add: pattern_preProcessing isPreProcessing_def)
  next
    case Downloading
    then show ?thesis using loop_after_first [of 0 1 bs]
      by (simp add: pattern_preProcessing isPreProcessing_def)
  next
    case AwaitingProcessing
    then show ?thesis using loop_after_first [of 0 1 bs]
      by (simp add: pattern_preProcessing isPreProcessing_def)
  qed
qed

text \<open>
  C1. For every list of batches, \<open>validateBatchesStatus\<close> returns without error exactly
  when the statuses, read in list order, match
  \<open>AwaitingValidation* Processing? (AwaitingDownload | Downloading | AwaitingProcessing)*\<close>;
  on every other list it throws.
\<close>

theorem validateBatchesStatus_pattern:
  "((validateBatchesStatus batches = Inr ())
      = batches_pattern (map (\<lambda>b. status (state b)) batches))
   \<and> ((\<exists>e. validateBatchesStatus batches = Inl e)
      = (\<not> batches_pattern (map (\<lambda>b. status (state b)) batches)))"
proof -
  have a: "(validateBatchesStatus batches = Inr ())
     = batches_pattern (map (\<lambda>b. status (state b)) batches)"
    by (simp add: validateBatchesStatus_def loop_from_start)
  have "(\<exists>e. validateBatchesStatus batches = Inl e)
     = (\<not> batches_pattern (map (\<lambda>b. status (state b)) batches))"
    using a by (cases "validateBatchesStatus batches") auto
  with a show ?thesis by simp
qed

theorem validateBatchesStatus_pattern_witness:
  "validateBatchesStatus
     [batchIn 0 (StAwaitingValidation \<lparr>peer = 1, hash = [7]\<rparr>),
      batchIn 2 (StProcessing \<lparr>peer = 1, hash = [8]\<rparr>),
      batchIn 4 (StAwaitingProcessing 2 [9]),
      batchIn 6 StAwaitingDownload] = Inr ()
   \<and> batches_pattern [AwaitingValidation, Processing, AwaitingProcessing, AwaitingDownload]
   \<and> validateBatchesStatus
     [batchIn 0 (StDownloading 1 []),
      batchIn 2 (StProcessing \<lparr>peer = 1, hash = [8]\<rparr>)]
       = Inl (JsError ''Processing state found after PreProcessing'')
   \<and> \<not> batches_pattern [Downloading, Processing]"
  using validateBatchesStatus_pattern
      [of "[batchIn 0 (StAwaitingValidation \<lparr>peer = 1, hash = [7]\<rparr>),
            batchIn 2 (StProcessing \<lparr>peer = 1, hash = [8]\<rparr>),
            batchIn 4 (StAwaitingProcessing 2 [9]),
            batchIn 6 StAwaitingDownload]"]
    validateBatchesStatus_pattern
      [of "[batchIn 0 (StDownloading 1 []),
            batchIn 2 (StProcessing \<lparr>peer = 1, hash = [8]\<rparr>)]"]
  by (simp add: validateBatchesStatus_def batchIn_def)

section \<open>SyncingChain (asStateMachine/chain.ts): the downloader\<close>

text \<open>
  A JavaScript \<open>Map\<close> iterates in insertion order. Every batch is stored under its own
  start epoch, so the map of batches is the list of its values in insertion order, the
  key of a batch being its \<open>startEpoch\<close>. \<open>mapSet\<close> is \<open>Map.set\<close>: an existing key
  keeps its place, a new key goes last. \<open>mapDelete\<close> is \<open>Map.delete\<close>.
\<close>

definition mapHas :: "Epoch \<Rightarrow> Batch list \<Rightarrow> bool" where
  "mapHas key bs = (key \<in> set (map startEpoch bs))"

definition mapSet :: "Batch \<Rightarrow> Batch list \<Rightarrow> Batch list" where
  "mapSet b bs =
     (if mapHas (startEpoch b) bs
      then map (\<lambda>x. if startEpoch x = startEpoch b then b else x) bs
      else bs @ [b])"

definition mapDelete :: "Epoch \<Rightarrow> Batch list \<Rightarrow> Batch list" where
  "mapDelete key bs = filter (\<lambda>x. startEpoch x \<noteq> key) bs"

text \<open>
  Modelled from the spec: \<open>sortBy\<close> (util/sortBy, and \<open>./utils\<close> of asStateMachine) is
  not among the sources. Its call in \<open>requestBatches\<close> sorts the peers by
  \<open>failed ? 1 : 0\<close> and then by active requests and takes the first, which the comment
  there and the spec read as "no failed request first, then fewest active downloads":
  a stable sort, ascending in the keys, an earlier key having priority over a later one.
\<close>

definition sortBy :: "'a list \<Rightarrow> ('a \<Rightarrow> int) list \<Rightarrow> 'a list" where
  "sortBy arr conditions = sort_key (\<lambda>item. map (\<lambda>condition. condition item) conditions) arr"

definition getActiveRequestsByPeer :: "Batch list \<Rightarrow> PeerId \<Rightarrow> nat" where
  "getActiveRequestsByPeer bs p =
     length (filter (\<lambda>b. case state b of StDownloading q _ \<Rightarrow> q = p | _ \<Rightarrow> False) bs)"

text \<open>
  The peer \<open>requestBatches\<close> picks to retry a batch in \<open>AwaitingDownload\<close>: the first of
  the sorted peers, or none when there is no peer. \<open>activeRequestsByPeer\<close> is the table of
  counts the call made when it began, read as \<open>activeRequestsByPeer.get(peer) ?? 0\<close>.
\<close>

definition peerToRetry :: "PeerId list \<Rightarrow> (PeerId \<Rightarrow> nat) \<Rightarrow> Batch \<Rightarrow> PeerId option" where
  "peerToRetry peerList activeRequestsByPeer batch =
     (let failedPeers = getFailedPeers batch
      in case sortBy peerList
                [\<lambda>p. if p \<in> set failedPeers then 1 else 0,
                 \<lambda>p. int (activeRequestsByPeer p)] of
           [] \<Rightarrow> None
         | p # _ \<Rightarrow> Some p)"

record SyncingChain =
  startEpoch :: Epoch
  downloaderTarget :: Epoch
  processorTarget :: Epoch
  validatedBatches :: nat
  batches :: "Batch list"

definition inBuffer :: "Batch \<Rightarrow> bool" where
  "inBuffer batch =
     (status (state batch) = Downloading \<or> status (state batch) = AwaitingProcessing)"

definition SyncingChain_includeNextBatch ::
  "IBeaconConfig \<Rightarrow> Epoch \<Rightarrow> SyncingChain \<Rightarrow> Batch option \<times> SyncingChain" where
  "SyncingChain_includeNextBatch config targetEpoch c =
     (if downloaderTarget c > targetEpoch then (None, c)
      else if length (filter inBuffer (batches c)) > BATCH_BUFFER_SIZE then (None, c)
      else
        let batchId = downloaderTarget c;
            batch = new_Batch config batchId EPOCHS_PER_BATCH
        in (Some batch,
            c\<lparr>batches := mapSet batch (batches c),
              downloaderTarget := downloaderTarget c + EPOCHS_PER_BATCH\<rparr>))"

text \<open>
  The first loop of \<open>requestBatches\<close>, "Retry download of existing batches". The counts
  of active requests are taken once, before the loop. A turn of the loop touches the
  batch of that turn only: \<open>sendBatch\<close> calls \<open>startDownloading\<close> on it and the rest
  happens when the download settles. So the loop maps \<open>retryBatch\<close> over the batches.
\<close>

definition retryBatch :: "PeerId list \<Rightarrow> (PeerId \<Rightarrow> nat) \<Rightarrow> Batch \<Rightarrow> Batch" where
  "retryBatch peerList activeRequestsByPeer batch =
     (if status (state batch) \<noteq> AwaitingDownload then batch
      else case peerToRetry peerList activeRequestsByPeer batch of
             None \<Rightarrow> batch
           | Some p \<Rightarrow>
               (case startDownloading p batch of
                  Inr batch' \<Rightarrow> batch'
                | Inl _ \<Rightarrow> batch))"

definition requestBatches_retry :: "PeerId list \<Rightarrow> SyncingChain \<Rightarrow> SyncingChain" where
  "requestBatches_retry peerList c =
     (let activeRequestsByPeer = getActiveRequestsByPeer (SyncingChain.batches c)
      in c\<lparr>SyncingChain.batches :=
             map (retryBatch peerList activeRequestsByPeer) (SyncingChain.batches c)\<rparr>)"

section \<open>SyncChain (range/chain.ts)\<close>

datatype RangeSyncType = Finalized | Head

datatype SyncChainStatus = Stopped | Syncing | Synced | Error

datatype PeerAction = Fatal | LowToleranceError | MidToleranceError | HighToleranceError

record ChainTarget =
  slot :: Slot
  root :: Root

record SyncChainOpts =
  epochsPerBatch :: int

text \<open>
  The fields of the class, and the effects it has on its surroundings: \<open>reported\<close> lists
  the calls of \<open>reportPeer\<close> in order, \<open>ended\<close> the calls of \<open>onEnd\<close> with their argument,
  \<open>processorEnd\<close> the error handed to \<open>batchProcessor.end\<close>, which the processor loop
  throws at its next turn. The peer map is the list of its entries, one per peer.
\<close>

record SyncChain =
  syncType :: RangeSyncType
  target :: "ChainTarget option"
  validatedEpochs :: int
  startEpoch :: Epoch
  chainStatus :: SyncChainStatus
  batches :: "Batch list"
  peerset :: "(PeerId \<times> ChainTarget) list"
  opts :: SyncChainOpts
  processorEnd :: "thrown option"
  reported :: "(PeerId \<times> PeerAction \<times> string) list"
  ended :: "thrown option list"

definition new_SyncChain :: "Epoch \<Rightarrow> RangeSyncType \<Rightarrow> int option \<Rightarrow> SyncChain" where
  "new_SyncChain startEpoch' syncType' epochsPerBatch' =
     \<lparr> syncType = syncType',
       target = None,
       validatedEpochs = 0,
       startEpoch = startEpoch',
       chainStatus = Stopped,
       batches = [],
       peerset = [],
       opts = \<lparr> epochsPerBatch =
                 (case epochsPerBatch' of Some n \<Rightarrow> n | None \<Rightarrow> EPOCHS_PER_BATCH) \<rparr>,
       processorEnd = None,
       reported = [],
       ended = [] \<rparr>"

definition isSyncing :: "SyncChain \<Rightarrow> bool" where
  "isSyncing c = (chainStatus c = Syncing)"

definition isRemovable :: "SyncChain \<Rightarrow> bool" where
  "isRemovable c = (chainStatus c = Error \<or> chainStatus c = Synced)"

definition peers :: "SyncChain \<Rightarrow> nat" where
  "peers c = length (peerset c)"

definition getPeers :: "SyncChain \<Rightarrow> PeerId list" where
  "getPeers c = map fst (peerset c)"

subsection \<open>advanceChain\<close>

fun reportAttempts :: "Attempt \<Rightarrow> Attempt list \<Rightarrow> (PeerId \<times> PeerAction \<times> string) list" where
  "reportAttempts attemptOk [] = []"
| "reportAttempts attemptOk (attempt # rest) =
     (if hash attempt \<noteq> hash attemptOk
      then (if peer attemptOk = peer attempt
            then [(peer attempt, MidToleranceError, ''SyncChainInvalidBatchSelf'')]
            else [(peer attempt, LowToleranceError, ''SyncChainInvalidBatchOther'')])
      else [])
     @ reportAttempts attemptOk rest"

text \<open>
  The loop over the entries of the map. Deleting the entry being visited does not disturb
  the iteration. A throw of \<open>validationSuccess\<close> leaves the loop with the batch already
  deleted and \<open>validatedEpochs\<close> already increased.
\<close>

fun advanceChain_loop :: "Epoch \<Rightarrow> Batch list \<Rightarrow> SyncChain \<Rightarrow> thrown option \<times> SyncChain" where
  "advanceChain_loop newStartEpoch [] c = (None, c)"
| "advanceChain_loop newStartEpoch (batch # rest) c =
     (if Batch.startEpoch batch < newStartEpoch
      then
        let c1 = c\<lparr>SyncChain.batches := mapDelete (Batch.startEpoch batch) (SyncChain.batches c),
                   validatedEpochs := validatedEpochs c + EPOCHS_PER_BATCH\<rparr>
        in (case validationSuccess batch of
              Inl e \<Rightarrow> (Some e, c1)
            | Inr attemptOk \<Rightarrow>
                advanceChain_loop newStartEpoch rest
                  (c1\<lparr>reported := reported c1
                         @ reportAttempts attemptOk (failedProcessingAttempts batch)\<rparr>))
      else advanceChain_loop newStartEpoch rest c)"

definition advanceChain :: "Epoch \<Rightarrow> SyncChain \<Rightarrow> thrown option \<times> SyncChain" where
  "advanceChain newStartEpoch c =
     (if newStartEpoch \<le> SyncChain.startEpoch c then (None, c)
      else (case advanceChain_loop newStartEpoch (SyncChain.batches c) c of
              (Some e, c') \<Rightarrow> (Some e, c')
            | (None, c') \<Rightarrow> (None, c'\<lparr>SyncChain.startEpoch := newStartEpoch\<rparr>)))"

subsection \<open>startSyncing, stopSyncing, remove, peers\<close>

text \<open>
  \<open>startSyncing\<close> up to its two triggers. The downloads that \<open>triggerBatchDownloader\<close>
  dispatches are the events \<open>Retry\<close> and \<open>IncludeNext\<close> below; a throw of \<open>advanceChain\<close>
  reaches the caller before either trigger.
\<close>

definition startSyncing :: "Epoch \<Rightarrow> SyncChain \<Rightarrow> thrown option \<times> SyncChain" where
  "startSyncing localFinalizedEpoch c =
     (case chainStatus c of
        Syncing \<Rightarrow> (None, c)
      | Error \<Rightarrow> (Some SyncChainStartError, c)
      | Synced \<Rightarrow> (Some SyncChainStartError, c)
      | Stopped \<Rightarrow>
          let c1 = c\<lparr>chainStatus := Syncing\<rparr>;
              localFinalizedEpochAligned =
                SyncChain.startEpoch c1
                  + ((localFinalizedEpoch - SyncChain.startEpoch c1) div EPOCHS_PER_BATCH)
                      * EPOCHS_PER_BATCH
          in advanceChain localFinalizedEpochAligned c1)"

definition stopSyncing :: "SyncChain \<Rightarrow> SyncChain" where
  "stopSyncing c = c\<lparr>chainStatus := Stopped\<rparr>"

definition remove :: "SyncChain \<Rightarrow> SyncChain" where
  "remove c = c\<lparr>processorEnd := Some ErrorAborted\<rparr>"

text \<open>
  Modelled from the spec: \<open>PeerMap\<close> and \<open>computeMostCommonTarget\<close> are not among the
  sources. The peer map holds one entry per peer; the target is the one most peers
  claim, a tie going to the greater root.
\<close>

definition peerMapSet :: "PeerId \<Rightarrow> ChainTarget \<Rightarrow> (PeerId \<times> ChainTarget) list
    \<Rightarrow> (PeerId \<times> ChainTarget) list" where
  "peerMapSet p t m =
     (if p \<in> set (map fst m) then map (\<lambda>kv. if fst kv = p then (p, t) else kv) m
      else m @ [(p, t)])"

definition peerMapDelete :: "PeerId \<Rightarrow> (PeerId \<times> ChainTarget) list
    \<Rightarrow> (PeerId \<times> ChainTarget) list" where
  "peerMapDelete p m = filter (\<lambda>kv. fst kv \<noteq> p) m"

definition computeMostCommonTarget :: "ChainTarget list \<Rightarrow> ChainTarget option" where
  "computeMostCommonTarget targets =
     (case targets of
        [] \<Rightarrow> None
      | t # ts \<Rightarrow>
          Some (fold (\<lambda>x best.
                  if count_list targets best < count_list targets x
                     \<or> (count_list targets best = count_list targets x \<and> root best < root x)
                  then x else best) ts t))"

definition computeTarget :: "SyncChain \<Rightarrow> SyncChain" where
  "computeTarget c = c\<lparr>target := computeMostCommonTarget (map snd (peerset c))\<rparr>"

definition addPeer :: "PeerId \<Rightarrow> ChainTarget \<Rightarrow> SyncChain \<Rightarrow> SyncChain" where
  "addPeer p t c = computeTarget (c\<lparr>peerset := peerMapSet p t (peerset c)\<rparr>)"

definition removePeer :: "PeerId \<Rightarrow> SyncChain \<Rightarrow> bool \<times> SyncChain" where
  "removePeer p c =
     (p \<in> set (map fst (peerset c)),
      computeTarget (c\<lparr>peerset := peerMapDelete p (peerset c)\<rparr>))"

subsection \<open>The downloader\<close>

definition includeNextBatch :: "IBeaconConfig \<Rightarrow> SyncChain \<Rightarrow> Batch option \<times> SyncChain" where
  "includeNextBatch config c =
     (let batches' = SyncChain.batches c;
          batchesInBuffer = filter inBuffer batches'
      in if length batchesInBuffer > BATCH_BUFFER_SIZE then (None, c)
         else
           let startEpoch' =
                 toBeDownloadedStartEpoch batches' (SyncChain.startEpoch c) (epochsPerBatch (opts c));
               toBeDownloadedSlot = computeStartSlotAtEpoch config startEpoch' + BATCH_SLOT_OFFSET
           in if (case target c of None \<Rightarrow> False | Some t \<Rightarrow> toBeDownloadedSlot > slot t)
              then (None, c)
              else if mapHas startEpoch' batches' then (None, c)
              else
                let batch = new_Batch config startEpoch' (epochsPerBatch (opts c))
                in (Some batch, c\<lparr>SyncChain.batches := mapSet batch batches'\<rparr>))"

text \<open>
  \<open>sendBatch\<close> runs up to its \<open>await\<close> when called, and the rest when the download
  settles. The batch is the one stored under the given epoch; an exception of a batch
  method goes to \<open>batchProcessor.end\<close>.
\<close>

datatype DownloadResult = DownloadOk "SignedBeaconBlock list" | DownloadErr

definition mapGet :: "Epoch \<Rightarrow> Batch list \<Rightarrow> Batch option" where
  "mapGet key bs = find (\<lambda>b. Batch.startEpoch b = key) bs"

text \<open>A method that mutates a batch held in the map changes the value stored under its key.\<close>

definition mapReplace :: "Batch \<Rightarrow> Batch list \<Rightarrow> Batch list" where
  "mapReplace b bs = map (\<lambda>x. if Batch.startEpoch x = Batch.startEpoch b then b else x) bs"

definition sendBatch_begin :: "Batch \<Rightarrow> PeerId \<Rightarrow> SyncChain \<Rightarrow> SyncChain" where
  "sendBatch_begin batch p c =
     (case range_startDownloading p batch of
        Inl e \<Rightarrow> c\<lparr>processorEnd := Some e\<rparr>
      | Inr batch' \<Rightarrow> c\<lparr>SyncChain.batches := mapReplace batch' (SyncChain.batches c)\<rparr>)"

definition sendBatch_settle :: "Batch \<Rightarrow> DownloadResult \<Rightarrow> SyncChain \<Rightarrow> SyncChain" where
  "sendBatch_settle batch res c =
     (case res of
        DownloadOk blocks \<Rightarrow>
          (case range_downloadingSuccess blocks batch of
             Inl e \<Rightarrow> c\<lparr>processorEnd := Some e\<rparr>
           | Inr batch' \<Rightarrow> c\<lparr>SyncChain.batches := mapReplace batch' (SyncChain.batches c)\<rparr>)
      | DownloadErr \<Rightarrow>
          (case range_downloadingError batch of
             (Some e, batch') \<Rightarrow>
               c\<lparr>SyncChain.batches := mapReplace batch' (SyncChain.batches c),
                 processorEnd := Some e\<rparr>
           | (None, batch') \<Rightarrow>
               c\<lparr>SyncChain.batches := mapReplace batch' (SyncChain.batches c)\<rparr>))"

subsection \<open>The processor\<close>

text \<open>
  What \<open>processChainSegment\<close> answers: success, a \<open>ChainSegmentError\<close> with its number of
  imported blocks, or another error. \<open>processBatch\<close> is taken in one piece, the answer
  being given with the call.
\<close>

datatype ProcessResult = ProcessOk | ChainSegmentError nat | ProcessFailed

fun importedBlocks :: "ProcessResult \<Rightarrow> nat" where
  "importedBlocks (ChainSegmentError n) = n"
| "importedBlocks _ = 0"

fun validationErrors :: "Epoch \<Rightarrow> Batch list \<Rightarrow> SyncChain \<Rightarrow> thrown option \<times> SyncChain" where
  "validationErrors e [] c = (None, c)"
| "validationErrors e (pendingBatch # rest) c =
     (if Batch.startEpoch pendingBatch < e
      then (case range_validationError pendingBatch of
              (Some err, b') \<Rightarrow>
                (Some err, c\<lparr>SyncChain.batches := mapReplace b' (SyncChain.batches c)\<rparr>)
            | (None, b') \<Rightarrow>
                validationErrors e rest
                  (c\<lparr>SyncChain.batches := mapReplace b' (SyncChain.batches c)\<rparr>))
      else validationErrors e rest c)"

definition processBatch ::
  "IBeaconConfig \<Rightarrow> Batch \<Rightarrow> ProcessResult \<Rightarrow> SyncChain \<Rightarrow> thrown option \<times> SyncChain" where
  "processBatch config batch res c =
     (case range_startProcessing config batch of
        Inl e \<Rightarrow> (Some e, c)
      | Inr (blocks, b1) \<Rightarrow>
          let c1 = c\<lparr>SyncChain.batches := mapReplace b1 (SyncChain.batches c)\<rparr>
          in (case res of
                ProcessOk \<Rightarrow>
                  (case range_processingSuccess b1 of
                     Inl e \<Rightarrow> (Some e, c1)
                   | Inr b2 \<Rightarrow>
                       let c2 = c1\<lparr>SyncChain.batches := mapReplace b2 (SyncChain.batches c1)\<rparr>
                       in if length blocks > 0
                          then advanceChain (Batch.startEpoch batch) c2
                          else (None, c2))
              | _ \<Rightarrow>
                  (case range_processingError b1 of
                     (Some e, b2) \<Rightarrow>
                       (Some e, c1\<lparr>SyncChain.batches := mapReplace b2 (SyncChain.batches c1)\<rparr>)
                   | (None, b2) \<Rightarrow>
                       let c2 = c1\<lparr>SyncChain.batches := mapReplace b2 (SyncChain.batches c1)\<rparr>
                       in (case (if importedBlocks res > 0
                                 then advanceChain (Batch.startEpoch batch) c2
                                 else (None, c2)) of
                             (Some e, c3) \<Rightarrow> (Some e, c3)
                           | (None, c3) \<Rightarrow>
                               validationErrors (Batch.startEpoch batch)
                                 (SyncChain.batches c3) c3))))"

text \<open>
  One turn of the loop of \<open>sync\<close>: the iterator throws what \<open>batchProcessor.end\<close> was
  given; otherwise the body runs and continues, breaks or throws.
\<close>

datatype LoopOutcome = Continue | Break | Throw thrown

definition sync_iteration ::
  "IBeaconConfig \<Rightarrow> ProcessResult \<Rightarrow> SyncChain \<Rightarrow> LoopOutcome \<times> SyncChain" where
  "sync_iteration config res c =
     (case processorEnd c of
        Some e \<Rightarrow> (Throw e, c)
      | None \<Rightarrow>
          if chainStatus c \<noteq> Syncing then (Continue, c)
          else (case validateBatchesStatus (SyncChain.batches c) of
                  Inl e \<Rightarrow> (Throw e, c)
                | Inr _ \<Rightarrow>
                    let toBeProcessedEpoch =
                          toBeProcessedStartEpoch (SyncChain.batches c) (SyncChain.startEpoch c)
                            (epochsPerBatch (opts c))
                    in if (case target c of
                             None \<Rightarrow> False
                           | Some t \<Rightarrow> computeStartSlotAtEpoch config toBeProcessedEpoch \<ge> slot t)
                       then (Break, c)
                       else (case getNextBatchToProcess (SyncChain.batches c) of
                               None \<Rightarrow> (Continue, c)
                             | Some batch \<Rightarrow>
                                 (case processBatch config batch res c of
                                    (Some e, c') \<Rightarrow> (Throw e, c')
                                  | (None, c') \<Rightarrow> (Continue, c')))))"

text \<open>
  Leaving the loop: after a break \<open>sync\<close> sets \<open>Synced\<close> and resolves; the catch block
  returns on \<open>ErrorAborted\<close>, and otherwise sets \<open>Error\<close>, reports the whole peer set for
  \<open>MAX_PROCESSING_ATTEMPTS\<close> and rethrows. The constructor passes the outcome to \<open>onEnd\<close>.
\<close>

definition sync_exit :: "LoopOutcome \<Rightarrow> SyncChain \<Rightarrow> SyncChain" where
  "sync_exit outcome c =
     (case outcome of
        Continue \<Rightarrow> c
      | Break \<Rightarrow> c\<lparr>chainStatus := Synced, ended := ended c @ [None]\<rparr>
      | Throw e \<Rightarrow>
          if e = ErrorAborted then c\<lparr>ended := ended c @ [None]\<rparr>
          else
            let c1 = c\<lparr>chainStatus := Error\<rparr>;
                c2 = (if e = BatchError MAX_PROCESSING_ATTEMPTS
                      then c1\<lparr>reported := reported c1
                               @ map (\<lambda>p. (p, LowToleranceError, ''SyncChainMaxProcessingAttempts''))
                                   (getPeers c1)\<rparr>
                      else c1)
            in c2\<lparr>ended := ended c2 @ [Some e]\<rparr>)"

text \<open>The promise of \<open>sync\<close> settles once: after \<open>onEnd\<close> the loop takes no further turn.\<close>

definition sync_step :: "IBeaconConfig \<Rightarrow> ProcessResult \<Rightarrow> SyncChain \<Rightarrow> SyncChain" where
  "sync_step config res c =
     (if ended c \<noteq> [] then c
      else (case sync_iteration config res c of (outcome, c') \<Rightarrow> sync_exit outcome c'))"

subsection \<open>Operations of a chain\<close>

text \<open>
  Everything that acts on a chain: the public methods, the two kinds of download that
  \<open>requestBatches\<close> dispatches when the chain is syncing (the retry of a batch in
  \<open>AwaitingDownload\<close> and the next new batch, each with the peer chosen for it), the
  settling of a download, and a turn of the processor loop. The peer of a download comes
  from \<open>ChainPeersBalancer\<close>, which is not among the sources: an event may carry any peer.
\<close>

datatype event =
    StartSyncing Epoch
  | StopSyncing
  | Remove
  | AddPeer PeerId ChainTarget
  | RemovePeer PeerId
  | Retry Epoch PeerId
  | IncludeNext PeerId
  | Downloaded Epoch DownloadResult
  | ProcessorTurn ProcessResult

fun chain_step :: "IBeaconConfig \<Rightarrow> event \<Rightarrow> SyncChain \<Rightarrow> SyncChain" where
  "chain_step config (StartSyncing e) c = snd (startSyncing e c)"
| "chain_step config StopSyncing c = stopSyncing c"
| "chain_step config Remove c = remove c"
| "chain_step config (AddPeer p t) c = addPeer p t c"
| "chain_step config (RemovePeer p) c = snd (removePeer p c)"
| "chain_step config (Retry e p) c =
     (if chainStatus c \<noteq> Syncing then c
      else (case mapGet e (SyncChain.batches c) of
              None \<Rightarrow> c
            | Some batch \<Rightarrow>
                if status (state batch) \<noteq> AwaitingDownload then c
                else sendBatch_begin batch p c))"
| "chain_step config (IncludeNext p) c =
     (if chainStatus c \<noteq> Syncing then c
      else (case includeNextBatch config c of
              (None, c') \<Rightarrow> c'
            | (Some batch, c') \<Rightarrow> sendBatch_begin batch p c'))"
| "chain_step config (Downloaded e res) c =
     (case mapGet e (SyncChain.batches c) of
        None \<Rightarrow> c
      | Some batch \<Rightarrow> sendBatch_settle batch res c)"
| "chain_step config (ProcessorTurn res) c = sync_step config res c"

definition chain_run :: "IBeaconConfig \<Rightarrow> event list \<Rightarrow> SyncChain \<Rightarrow> SyncChain" where
  "chain_run config evs c = fold (chain_step config) evs c"

subsection \<open>Predicates and examples for the claims on advanceChain\<close>

text \<open>
  \<open>advances c c'\<close>: neither \<open>startEpoch\<close> nor \<open>validatedEpochs\<close> is smaller in \<open>c'\<close>.
  \<open>validatedBelow e bs\<close>: every batch of \<open>bs\<close> below \<open>e\<close> is in \<open>AwaitingValidation\<close>.
  \<open>reportsFor b\<close>: the reports a removed batch causes.
\<close>

definition advances :: "SyncChain \<Rightarrow> SyncChain \<Rightarrow> bool" where
  "advances c c' =
     (SyncChain.startEpoch c \<le> SyncChain.startEpoch c' \<and> validatedEpochs c \<le> validatedEpochs c')"

definition validatedBelow :: "Epoch \<Rightarrow> Batch list \<Rightarrow> bool" where
  "validatedBelow e bs =
     list_all (\<lambda>b. Batch.startEpoch b < e \<longrightarrow> status (state b) = AwaitingValidation) bs"

definition reportsFor :: "Batch \<Rightarrow> (PeerId \<times> PeerAction \<times> string) list" where
  "reportsFor b =
     (case validationSuccess b of
        Inl _ \<Rightarrow> []
      | Inr attemptOk \<Rightarrow> reportAttempts attemptOk (failedProcessingAttempts b))"

text \<open>
  The removal of batches as the spec words it: \<open>validationSuccess\<close> is called only on a
  batch in \<open>AwaitingValidation\<close>; a batch in another state is removed without it.
\<close>

fun advanceChain_spec_loop :: "Epoch \<Rightarrow> Batch list \<Rightarrow> SyncChain \<Rightarrow> SyncChain" where
  "advanceChain_spec_loop newStartEpoch [] c = c"
| "advanceChain_spec_loop newStartEpoch (batch # rest) c =
     (if Batch.startEpoch batch < newStartEpoch
      then
        let c1 = c\<lparr>SyncChain.batches := mapDelete (Batch.startEpoch batch) (SyncChain.batches c)\<rparr>;
            c2 = (case state batch of
                    StAwaitingValidation attemptOk \<Rightarrow>
                      c1\<lparr>reported := reported c1
                             @ reportAttempts attemptOk (failedProcessingAttempts batch)\<rparr>
                  | _ \<Rightarrow> c1)
        in advanceChain_spec_loop newStartEpoch rest
             (c2\<lparr>validatedEpochs := validatedEpochs c2 + epochsPerBatch (opts c2)\<rparr>)
      else advanceChain_spec_loop newStartEpoch rest c)"

definition advanceChain_spec :: "Epoch \<Rightarrow> SyncChain \<Rightarrow> SyncChain" where
  "advanceChain_spec newStartEpoch c =
     (if newStartEpoch \<le> SyncChain.startEpoch c then c
      else (advanceChain_spec_loop newStartEpoch (SyncChain.batches c) c)
             \<lparr>SyncChain.startEpoch := newStartEpoch\<rparr>)"

text \<open>
  A finalized chain anchored at epoch 0 with three peers, target slot 3200, syncing, and
  the batches given.
\<close>

definition exampleTarget :: ChainTarget where
  "exampleTarget = \<lparr> slot = 3200, root = [1] \<rparr>"

definition chainWith :: "Batch list \<Rightarrow> SyncChain" where
  "chainWith bs =
     (new_SyncChain 0 Finalized None)
       \<lparr> target := Some exampleTarget,
         chainStatus := Syncing,
         SyncChain.batches := bs,
         peerset := [(1, exampleTarget), (2, exampleTarget), (3, exampleTarget)] \<rparr>"

subsection \<open>Predicates for the claims on starting, stopping and ending\<close>

text \<open>
  \<open>alignedEpoch_spec\<close> is the aligned epoch in the spec's words, with the configured
  \<open>epochs_per_batch\<close>. \<open>sameSurroundings c c'\<close>: status, peers, options, target and
  the end of the chain are the same in both. \<open>maxProcessingReports\<close> are the reports
  for a peer set after \<open>MAX_PROCESSING_ATTEMPTS\<close>.
\<close>

definition alignedEpoch_spec :: "SyncChain \<Rightarrow> Epoch \<Rightarrow> Epoch" where
  "alignedEpoch_spec c localFinalizedEpoch =
     SyncChain.startEpoch c
       + ((localFinalizedEpoch - SyncChain.startEpoch c) div epochsPerBatch (opts c))
           * epochsPerBatch (opts c)"

definition sameSurroundings :: "SyncChain \<Rightarrow> SyncChain \<Rightarrow> bool" where
  "sameSurroundings c c' =
     (chainStatus c' = chainStatus c \<and> ended c' = ended c \<and> peerset c' = peerset c
      \<and> opts c' = opts c \<and> target c' = target c \<and> syncType c' = syncType c
      \<and> processorEnd c' = processorEnd c)"


subsection \<open>Scenarios for the claims on attempts\<close>


definition syncingOn :: "PeerId list \<Rightarrow> event list" where
  "syncingOn ps = map (\<lambda>p. AddPeer p exampleTarget) ps @ [StartSyncing 0]"



section \<open>advanceChain: boundaries, monotonicity, reports\<close>

lemma advances_refl: "advances c c"
  by (simp add: advances_def)

lemma advances_trans: "advances a b \<Longrightarrow> advances b c \<Longrightarrow> advances a c"
  by (auto simp: advances_def)

lemma advanceChain_loop_keeps:
  "SyncChain.startEpoch (snd (advanceChain_loop e bs c)) = SyncChain.startEpoch c
   \<and> validatedEpochs c \<le> validatedEpochs (snd (advanceChain_loop e bs c))"
proof (induction bs arbitrary: c)
  case Nil
  show ?case by simp
next
  case (Cons b bs)
  show ?case
  proof (cases "Batch.startEpoch b < e")
    case False
    then show ?thesis using Cons.IH [of c] by simp
  next
    case True
    show ?thesis
    proof (cases "validationSuccess b")
      case (Inl err)
      with True show ?thesis by (simp add: Let_def EPOCHS_PER_BATCH_def)
    next
      case (Inr a)
      let ?c2 = "c\<lparr>SyncChain.batches := mapDelete (Batch.startEpoch b) (SyncChain.batches c),
                 validatedEpochs := validatedEpochs c + EPOCHS_PER_BATCH,
                 reported := reported c @ reportAttempts a (failedProcessingAttempts b)\<rparr>"
      from Cons.IH [of ?c2] True Inr show ?thesis
        by (simp add: Let_def EPOCHS_PER_BATCH_def)
    qed
  qed
qed

lemma advanceChain_advances: "advances c (snd (advanceChain e c))"
proof (cases "e \<le> SyncChain.startEpoch c")
  case True
  then show ?thesis by (simp add: advanceChain_def advances_def)
next
  case False
  obtain r c' where l: "advanceChain_loop e (SyncChain.batches c) c = (r, c')"
    by (cases "advanceChain_loop e (SyncChain.batches c) c")
  from advanceChain_loop_keeps [of e "SyncChain.batches c" c] l
  have k: "SyncChain.startEpoch c' = SyncChain.startEpoch c"
    "validatedEpochs c \<le> validatedEpochs c'" by simp_all
  from False l k show ?thesis
    by (cases r) (simp_all add: advanceChain_def advances_def)
qed

lemma startSyncing_advances: "advances c (snd (startSyncing e c))"
proof (cases "chainStatus c")
  case Stopped
  let ?c1 = "c\<lparr>chainStatus := Syncing\<rparr>"
  have "advances c ?c1" by (simp add: advances_def)
  moreover have "advances ?c1 (snd (advanceChain
      (SyncChain.startEpoch ?c1
        + ((e - SyncChain.startEpoch ?c1) div EPOCHS_PER_BATCH) * EPOCHS_PER_BATCH) ?c1))"
    by (rule advanceChain_advances)
  ultimately show ?thesis using Stopped
    by (simp add: startSyncing_def Let_def advances_def)
qed (simp_all add: startSyncing_def advances_def)

lemma sendBatch_begin_advances: "advances c (sendBatch_begin b p c)"
  by (simp add: sendBatch_begin_def advances_def split: sum.splits)

lemma sendBatch_settle_advances: "advances c (sendBatch_settle b r c)"
  by (simp add: sendBatch_settle_def advances_def
      split: sum.splits DownloadResult.splits prod.splits option.splits)

lemma includeNextBatch_advances: "advances c (snd (includeNextBatch config c))"
  by (simp add: includeNextBatch_def advances_def Let_def)

lemma validationErrors_advances: "advances c (snd (validationErrors e bs c))"
proof (induction bs arbitrary: c)
  case Nil
  show ?case by (simp add: advances_def)
next
  case (Cons b bs)
  show ?case
  proof (cases "Batch.startEpoch b < e")
    case False
    then show ?thesis using Cons.IH [of c] by simp
  next
    case True
    obtain r b' where v: "range_validationError b = (r, b')"
      by (cases "range_validationError b")
    let ?c1 = "c\<lparr>SyncChain.batches := mapReplace b' (SyncChain.batches c)\<rparr>"
    have a: "advances c ?c1" by (simp add: advances_def)
    show ?thesis
    proof (cases r)
      case (Some err)
      with True v a show ?thesis by simp
    next
      case None
      from advances_trans [OF a Cons.IH [of ?c1]] True v None show ?thesis by simp
    qed
  qed
qed

lemma batches_update_advances:
  "advances c c' \<Longrightarrow> advances (c\<lparr>SyncChain.batches := bs\<rparr>) c'"
  "advances c c' \<Longrightarrow> advances c (c'\<lparr>SyncChain.batches := bs\<rparr>)"
  by (simp_all add: advances_def)

lemma advances_batches [simp]:
  "advances (c\<lparr>SyncChain.batches := bs\<rparr>) c' = advances c c'"
  "advances c (c'\<lparr>SyncChain.batches := bs\<rparr>) = advances c c'"
  by (simp_all add: advances_def)

lemma advanceChain_advances_eq:
  "advanceChain e c = (r, c') \<Longrightarrow> advances c c'"
  using advanceChain_advances [of c e] by simp

lemma validationErrors_advances_eq:
  "validationErrors e bs c = (r, c') \<Longrightarrow> advances c c'"
  using validationErrors_advances [of c e bs] by simp

lemma processBatch_advances: "advances c (snd (processBatch config batch res c))"
proof -
  have adv: "\<And>e bs. advances c (snd (advanceChain e (c\<lparr>SyncChain.batches := bs\<rparr>)))"
    using advanceChain_advances [of "c\<lparr>SyncChain.batches := bs\<rparr>" for bs] by simp
  have both: "\<And>e bs r c3.
      advanceChain e (c\<lparr>SyncChain.batches := bs\<rparr>) = (r, c3) \<Longrightarrow>
      advances c (snd (validationErrors e (SyncChain.batches c3) c3))"
  proof -
    fix e bs r c3
    assume "advanceChain e (c\<lparr>SyncChain.batches := bs\<rparr>) = (r, c3)"
    from advanceChain_advances_eq [OF this] have "advances c c3" by simp
    from advances_trans [OF this validationErrors_advances] 
    show "advances c (snd (validationErrors e (SyncChain.batches c3) c3))" .
  qed
  have ve: "\<And>e bs. advances c
      (snd (validationErrors e bs (c\<lparr>SyncChain.batches := bs\<rparr>)))"
    using validationErrors_advances [of "c\<lparr>SyncChain.batches := bs\<rparr>" for bs] by simp
  show ?thesis
    unfolding processBatch_def Let_def
    using adv both ve
    by (auto simp: advances_refl dest: advanceChain_advances_eq
        split: sum.splits prod.splits option.splits ProcessResult.splits if_splits)
qed

lemma sync_iteration_advances: "advances c (snd (sync_iteration config res c))"
proof -
  have p: "\<And>b r c'. processBatch config b res c = (r, c') \<Longrightarrow> advances c c'"
    using processBatch_advances [of c config _ res] by (metis snd_conv)
  show ?thesis
    unfolding sync_iteration_def Let_def
    using p
    by (auto simp: advances_refl split: option.splits sum.splits prod.splits)
qed

lemma sync_exit_advances: "advances c (sync_exit outcome c)"
  by (cases outcome) (simp_all add: sync_exit_def advances_def Let_def)

lemma sync_step_advances: "advances c (sync_step config res c)"
proof (cases "ended c \<noteq> []")
  case True
  then show ?thesis by (simp add: sync_step_def advances_refl)
next
  case False
  obtain outcome c' where i: "sync_iteration config res c = (outcome, c')"
    by (cases "sync_iteration config res c")
  with sync_iteration_advances [of c config res] have "advances c c'" by simp
  from advances_trans [OF this sync_exit_advances [of c' outcome]] False i
  show ?thesis by (simp add: sync_step_def)
qed

lemma chain_step_advances: "advances c (chain_step config ev c)"
proof (cases ev)
  case (StartSyncing e)
  then show ?thesis by (simp add: startSyncing_advances)
next
  case StopSyncing
  then show ?thesis by (simp add: stopSyncing_def advances_def)
next
  case Remove
  then show ?thesis by (simp add: remove_def advances_def)
next
  case (AddPeer p t)
  then show ?thesis by (simp add: addPeer_def computeTarget_def advances_def)
next
  case (RemovePeer p)
  then show ?thesis by (simp add: removePeer_def computeTarget_def advances_def)
next
  case (Retry e p)
  then show ?thesis
    by (simp add: sendBatch_begin_advances advances_refl split: option.splits)
next
  case (IncludeNext p)
  obtain r c' where i: "includeNextBatch config c = (r, c')"
    by (cases "includeNextBatch config c")
  with includeNextBatch_advances [of c config] have a: "advances c c'" by simp
  show ?thesis
  proof (cases r)
    case None
    with IncludeNext i a show ?thesis by (simp add: advances_refl)
  next
    case (Some b)
    from advances_trans [OF a sendBatch_begin_advances [of c' b p]] IncludeNext i Some
    show ?thesis by (simp add: advances_refl)
  qed
next
  case (Downloaded e r)
  then show ?thesis
    by (simp add: sendBatch_settle_advances advances_refl split: option.splits)
next
  case (ProcessorTurn r)
  then show ?thesis by (simp add: sync_step_advances)
qed

lemma chain_run_advances: "advances c (chain_run config evs c)"
proof (induction evs arbitrary: c)
  case Nil
  show ?case by (simp add: chain_run_def advances_refl)
next
  case (Cons ev evs)
  from advances_trans [OF chain_step_advances [of c config ev] Cons.IH [of "chain_step config ev c"]]
  show ?case by (simp add: chain_run_def)
qed

lemma validationSuccess_iff:
  "(\<exists>a. validationSuccess b = Inr a) = (status (state b) = AwaitingValidation)"
  "(validationSuccess b = Inl (BatchError WRONG_BATCH_STATE))
     = (status (state b) \<noteq> AwaitingValidation)"
  by (cases "state b"; simp add: validationSuccess_def)+

lemma advanceChain_loop_ok:
  "validatedBelow e bs \<Longrightarrow>
     advanceChain_loop e bs c =
       (None,
        c\<lparr>SyncChain.batches :=
             filter (\<lambda>x. Batch.startEpoch x
                        \<notin> set (map Batch.startEpoch (filter (\<lambda>b. Batch.startEpoch b < e) bs)))
               (SyncChain.batches c),
          validatedEpochs :=
             validatedEpochs c
               + EPOCHS_PER_BATCH * int (length (filter (\<lambda>b. Batch.startEpoch b < e) bs)),
          reported :=
             reported c @ concat (map reportsFor (filter (\<lambda>b. Batch.startEpoch b < e) bs))\<rparr>)"
proof (induction bs arbitrary: c)
  case Nil
  show ?case by simp
next
  case (Cons b bs)
  from Cons.prems have rest: "validatedBelow e bs" by (simp add: validatedBelow_def)
  show ?case
  proof (cases "Batch.startEpoch b < e")
    case False
    then show ?thesis using Cons.IH [OF rest, of c] by simp
  next
    case True
    with Cons.prems have "status (state b) = AwaitingValidation"
      by (simp add: validatedBelow_def)
    then obtain a where a: "validationSuccess b = Inr a"
      using validationSuccess_iff(1) [of b] by blast
    let ?c2 = "c\<lparr>SyncChain.batches := mapDelete (Batch.startEpoch b) (SyncChain.batches c),
                 validatedEpochs := validatedEpochs c + EPOCHS_PER_BATCH,
                 reported := reported c @ reportAttempts a (failedProcessingAttempts b)\<rparr>"
    have step: "advanceChain_loop e (b # bs) c = advanceChain_loop e bs ?c2"
      using True a by (simp add: Let_def)
    have rf: "reportsFor b = reportAttempts a (failedProcessingAttempts b)"
      using a by (simp add: reportsFor_def)
    show ?thesis
      unfolding step Cons.IH [OF rest, of ?c2]
    proof (rule arg_cong [where f = "Pair None"], rule SyncChain.equality)
      show "SyncChain.batches
              (?c2\<lparr>SyncChain.batches :=
                 filter (\<lambda>x. Batch.startEpoch x
                            \<notin> set (map Batch.startEpoch (filter (\<lambda>b. Batch.startEpoch b < e) bs)))
                   (SyncChain.batches ?c2),
               validatedEpochs :=
                 validatedEpochs ?c2
                   + EPOCHS_PER_BATCH * int (length (filter (\<lambda>b. Batch.startEpoch b < e) bs)),
               reported :=
                 reported ?c2 @ concat (map reportsFor (filter (\<lambda>b. Batch.startEpoch b < e) bs))\<rparr>)
          = SyncChain.batches
              (c\<lparr>SyncChain.batches :=
                 filter (\<lambda>x. Batch.startEpoch x
                            \<notin> set (map Batch.startEpoch
                                     (filter (\<lambda>b. Batch.startEpoch b < e) (b # bs))))
                   (SyncChain.batches c),
               validatedEpochs :=
                 validatedEpochs c
                   + EPOCHS_PER_BATCH
                       * int (length (filter (\<lambda>b. Batch.startEpoch b < e) (b # bs))),
               reported :=
                 reported c
                   @ concat (map reportsFor (filter (\<lambda>b. Batch.startEpoch b < e) (b # bs)))\<rparr>)"
        using True by (auto simp: mapDelete_def intro: filter_cong)
    qed (use True rf in \<open>simp_all add: algebra_simps\<close>)
  qed
qed

lemma advanceChain_loop_fail:
  "\<not> validatedBelow e bs \<Longrightarrow>
     fst (advanceChain_loop e bs c) = Some (BatchError WRONG_BATCH_STATE)"
proof (induction bs arbitrary: c)
  case Nil
  then show ?case by (simp add: validatedBelow_def)
next
  case (Cons b bs)
  show ?case
  proof (cases "Batch.startEpoch b < e")
    case False
    with Cons.prems have "\<not> validatedBelow e bs" by (simp add: validatedBelow_def)
    from Cons.IH [OF this, of c] False show ?thesis by simp
  next
    case True
    show ?thesis
    proof (cases "status (state b) = AwaitingValidation")
      case False
      then have "validationSuccess b = Inl (BatchError WRONG_BATCH_STATE)"
        using validationSuccess_iff(2) [of b] by simp
      with True show ?thesis by (simp add: Let_def)
    next
      case av: True
      then obtain a where a: "validationSuccess b = Inr a"
        using validationSuccess_iff(1) [of b] by blast
      from av Cons.prems have "\<not> validatedBelow e bs" by (simp add: validatedBelow_def)
      from Cons.IH [OF this] True a show ?thesis by (simp add: Let_def)
    qed
  qed
qed

lemma filter_below_keys:
  "filter (\<lambda>x. Batch.startEpoch x
             \<notin> set (map Batch.startEpoch (filter (\<lambda>b. Batch.startEpoch b < e) bs))) bs
     = filter (\<lambda>b. \<not> Batch.startEpoch b < e) bs"
  by (rule filter_cong) auto

lemma advanceChain_ok:
  assumes "SyncChain.startEpoch c < e" and "validatedBelow e (SyncChain.batches c)"
  shows "advanceChain e c =
       (None,
        c\<lparr>SyncChain.batches := filter (\<lambda>b. \<not> Batch.startEpoch b < e) (SyncChain.batches c),
          validatedEpochs :=
             validatedEpochs c
               + EPOCHS_PER_BATCH
                   * int (length (filter (\<lambda>b. Batch.startEpoch b < e) (SyncChain.batches c))),
          reported :=
             reported c
               @ concat (map reportsFor
                   (filter (\<lambda>b. Batch.startEpoch b < e) (SyncChain.batches c))),
          SyncChain.startEpoch := e\<rparr>)"
proof -
  have "advanceChain e c =
      (None,
        (c\<lparr>SyncChain.batches :=
             filter (\<lambda>x. Batch.startEpoch x
                        \<notin> set (map Batch.startEpoch
                                 (filter (\<lambda>b. Batch.startEpoch b < e) (SyncChain.batches c))))
               (SyncChain.batches c),
          validatedEpochs :=
             validatedEpochs c
               + EPOCHS_PER_BATCH
                   * int (length (filter (\<lambda>b. Batch.startEpoch b < e) (SyncChain.batches c))),
          reported :=
             reported c
               @ concat (map reportsFor
                   (filter (\<lambda>b. Batch.startEpoch b < e) (SyncChain.batches c)))\<rparr>)
        \<lparr>SyncChain.startEpoch := e\<rparr>)"
    using assms(1) by (simp add: advanceChain_def advanceChain_loop_ok [OF assms(2)])
  then show ?thesis unfolding filter_below_keys by simp
qed

lemma advanceChain_fail:
  assumes "SyncChain.startEpoch c < e" and "\<not> validatedBelow e (SyncChain.batches c)"
  shows "fst (advanceChain e c) = Some (BatchError WRONG_BATCH_STATE)"
    and "SyncChain.startEpoch (snd (advanceChain e c)) = SyncChain.startEpoch c"
proof -
  obtain r c' where l: "advanceChain_loop e (SyncChain.batches c) c = (r, c')"
    by (cases "advanceChain_loop e (SyncChain.batches c) c")
  from advanceChain_loop_fail [OF assms(2), of c] l
  have r: "r = Some (BatchError WRONG_BATCH_STATE)" by simp
  from advanceChain_loop_keeps [of e "SyncChain.batches c" c] l
  have k: "SyncChain.startEpoch c' = SyncChain.startEpoch c" by simp
  from assms(1) l r show "fst (advanceChain e c) = Some (BatchError WRONG_BATCH_STATE)"
    by (simp add: advanceChain_def)
  from assms(1) l r k show "SyncChain.startEpoch (snd (advanceChain e c)) = SyncChain.startEpoch c"
    by (simp add: advanceChain_def)
qed

lemma reportAttempts_filter:
  "reportAttempts attemptOk attempts =
     map (\<lambda>attempt.
            if peer attemptOk = peer attempt
            then (peer attempt, MidToleranceError, ''SyncChainInvalidBatchSelf'')
            else (peer attempt, LowToleranceError, ''SyncChainInvalidBatchOther''))
       (filter (\<lambda>attempt. hash attempt \<noteq> hash attemptOk) attempts)"
  by (induction attempts) simp_all

text \<open>
  C4. For every chain and every epoch \<open>e\<close>: with \<open>e \<le> startEpoch\<close>, \<open>advanceChain e\<close>
  leaves the whole chain unchanged. With \<open>e > startEpoch\<close> and every batch below \<open>e\<close> in
  \<open>AwaitingValidation\<close> it sets \<open>startEpoch = e\<close>. Across every operation and every
  sequence of operations of the chain, \<open>startEpoch\<close> and \<open>validatedEpochs\<close> never
  decrease. But with \<open>e > startEpoch\<close> and a batch below \<open>e\<close> in another state, the call
  of \<open>validationSuccess\<close> on that batch throws \<open>WrongBatchState\<close> before the assignment
  is reached, and \<open>startEpoch\<close> keeps its value where it should become \<open>e\<close>.
\<close>

theorem advanceChain_boundary:
  "(e \<le> SyncChain.startEpoch c \<longrightarrow> advanceChain e c = (None, c))
   \<and> (SyncChain.startEpoch c < e \<and> validatedBelow e (SyncChain.batches c) \<longrightarrow>
        fst (advanceChain e c) = None
        \<and> SyncChain.startEpoch (snd (advanceChain e c)) = e)
   \<and> (SyncChain.startEpoch c < e \<and> \<not> validatedBelow e (SyncChain.batches c) \<longrightarrow>
        fst (advanceChain e c) = Some (BatchError WRONG_BATCH_STATE)
        \<and> SyncChain.startEpoch (snd (advanceChain e c)) = SyncChain.startEpoch c)
   \<and> advances c (snd (advanceChain e c))
   \<and> advances c (chain_step config ev c)
   \<and> advances c (chain_run config evs c)"
proof -
  have "e \<le> SyncChain.startEpoch c \<longrightarrow> advanceChain e c = (None, c)"
    by (simp add: advanceChain_def)
  moreover have "SyncChain.startEpoch c < e \<and> validatedBelow e (SyncChain.batches c) \<longrightarrow>
        fst (advanceChain e c) = None
        \<and> SyncChain.startEpoch (snd (advanceChain e c)) = e"
    by (simp add: advanceChain_ok)
  moreover have "SyncChain.startEpoch c < e \<and> \<not> validatedBelow e (SyncChain.batches c) \<longrightarrow>
        fst (advanceChain e c) = Some (BatchError WRONG_BATCH_STATE)
        \<and> SyncChain.startEpoch (snd (advanceChain e c)) = SyncChain.startEpoch c"
    using advanceChain_fail [of c e] by blast
  ultimately show ?thesis
    using advanceChain_advances [of c e] chain_step_advances [of c config ev]
      chain_run_advances [of c config evs]
    by blast
qed

theorem advanceChain_boundary_witness:
  "advanceChain 0 (chainWith [batchIn 0 (StAwaitingValidation \<lparr>peer = 2, hash = [8]\<rparr>),
                               batchIn 2 (StProcessing \<lparr>peer = 1, hash = [9]\<rparr>)])
     = (None, chainWith [batchIn 0 (StAwaitingValidation \<lparr>peer = 2, hash = [8]\<rparr>),
                         batchIn 2 (StProcessing \<lparr>peer = 1, hash = [9]\<rparr>)])
   \<and> fst (advanceChain 2 (chainWith [batchIn 0 (StAwaitingValidation \<lparr>peer = 2, hash = [8]\<rparr>),
                               batchIn 2 (StProcessing \<lparr>peer = 1, hash = [9]\<rparr>)])) = None
   \<and> SyncChain.startEpoch
        (snd (advanceChain 2 (chainWith [batchIn 0 (StAwaitingValidation \<lparr>peer = 2, hash = [8]\<rparr>),
                               batchIn 2 (StProcessing \<lparr>peer = 1, hash = [9]\<rparr>)]))) = 2
   \<and> fst (advanceChain 4 (chainWith [batchIn 0 (StAwaitingValidation \<lparr>peer = 2, hash = [8]\<rparr>),
                               batchIn 2 (StProcessing \<lparr>peer = 1, hash = [9]\<rparr>)]))
        = Some (BatchError WRONG_BATCH_STATE)
   \<and> advances (chainWith [batchIn 0 (StAwaitingValidation \<lparr>peer = 2, hash = [8]\<rparr>),
                               batchIn 2 (StProcessing \<lparr>peer = 1, hash = [9]\<rparr>)])
        (chain_run exampleConfig [StopSyncing, StartSyncing 5, ProcessorTurn ProcessOk]
           (chainWith [batchIn 0 (StAwaitingValidation \<lparr>peer = 2, hash = [8]\<rparr>),
                               batchIn 2 (StProcessing \<lparr>peer = 1, hash = [9]\<rparr>)]))"
  using advanceChain_boundary
      [of 0 "chainWith [batchIn 0 (StAwaitingValidation \<lparr>peer = 2, hash = [8]\<rparr>),
                               batchIn 2 (StProcessing \<lparr>peer = 1, hash = [9]\<rparr>)]"
          exampleConfig StopSyncing "[StopSyncing, StartSyncing 5, ProcessorTurn ProcessOk]"]
    advanceChain_boundary
      [of 2 "chainWith [batchIn 0 (StAwaitingValidation \<lparr>peer = 2, hash = [8]\<rparr>),
                               batchIn 2 (StProcessing \<lparr>peer = 1, hash = [9]\<rparr>)]"
          exampleConfig StopSyncing "[]"]
    advanceChain_boundary
      [of 4 "chainWith [batchIn 0 (StAwaitingValidation \<lparr>peer = 2, hash = [8]\<rparr>),
                               batchIn 2 (StProcessing \<lparr>peer = 1, hash = [9]\<rparr>)]"
          exampleConfig StopSyncing "[]"]
  by (simp add: chainWith_def new_SyncChain_def batchIn_def new_Batch_def validatedBelow_def)

text \<open>
  A chain that is stopped while its first batch is downloading and then started again
  at epoch 2: \<open>startSyncing\<close> calls \<open>advanceChain 2\<close>, which deletes the batch, counts its
  epochs as validated and throws; \<open>startEpoch\<close> stays 0.
\<close>

theorem advanceChain_restart_example:
  "chain_run exampleConfig (syncingOn [1, 2, 3] @ [IncludeNext 1, StopSyncing])
      (new_SyncChain 0 Finalized None)
     = (chainWith [batchIn 0 (StDownloading 1 [])])\<lparr>chainStatus := Stopped\<rparr>
   \<and> startSyncing 2 ((chainWith [batchIn 0 (StDownloading 1 [])])\<lparr>chainStatus := Stopped\<rparr>)
       = (Some (BatchError WRONG_BATCH_STATE), (chainWith [])\<lparr>validatedEpochs := 2\<rparr>)
   \<and> SyncChain.startEpoch
        (chain_run exampleConfig (syncingOn [1, 2, 3] @ [IncludeNext 1, StopSyncing, StartSyncing 2])
           (new_SyncChain 0 Finalized None)) = 0
   \<and> advanceChain 2 (chainWith [batchIn 0 (StDownloading 1 [])])
       = (Some (BatchError WRONG_BATCH_STATE), (chainWith [])\<lparr>validatedEpochs := 2\<rparr>)"
  by (simp add: chain_run_def syncingOn_def new_SyncChain_def exampleTarget_def
      exampleConfig_def addPeer_def peerMapSet_def computeTarget_def
      computeMostCommonTarget_def startSyncing_def stopSyncing_def advanceChain_def
      EPOCHS_PER_BATCH_def includeNextBatch_def inBuffer_def BATCH_BUFFER_SIZE_def
      toBeDownloadedStartEpoch_def computeStartSlotAtEpoch_def BATCH_SLOT_OFFSET_def
      mapHas_def mapSet_def mapDelete_def new_Batch_def sendBatch_begin_def
      range_startDownloading_def mapReplace_def validationSuccess_def chainWith_def
      batchIn_def Let_def)

text \<open>
  C5. \<open>validationSuccess\<close> on a batch in \<open>AwaitingValidation\<close> yields the winning attempt,
  and when \<open>advanceChain\<close> removes such a batch every entry of
  \<open>failedProcessingAttempts\<close> whose hash differs from the winner's has its peer reported:
  \<open>MidToleranceError\<close>, "SyncChainInvalidBatchSelf" for the winner's own peer,
  \<open>LowToleranceError\<close>, "SyncChainInvalidBatchOther" for another; an entry with the
  winner's hash causes no report. But \<open>advanceChain\<close> calls \<open>validationSuccess\<close> on every
  batch it removes, with no test of its state: for a removed batch in another state the
  call throws \<open>WrongBatchState\<close>, and \<open>advanceChain\<close> with it, where the batch should be
  dropped without the call.
\<close>

theorem advanceChain_reports:
  "reportAttempts attemptOk attempts =
     map (\<lambda>attempt.
            if peer attemptOk = peer attempt
            then (peer attempt, MidToleranceError, ''SyncChainInvalidBatchSelf'')
            else (peer attempt, LowToleranceError, ''SyncChainInvalidBatchOther''))
       (filter (\<lambda>attempt. hash attempt \<noteq> hash attemptOk) attempts)
   \<and> (state b = StAwaitingValidation attemptOk \<longrightarrow>
        validationSuccess b = Inr attemptOk
        \<and> reportsFor b = reportAttempts attemptOk (failedProcessingAttempts b))
   \<and> (status (state b) \<noteq> AwaitingValidation \<longrightarrow>
        validationSuccess b = Inl (BatchError WRONG_BATCH_STATE))
   \<and> (SyncChain.startEpoch c < e \<and> validatedBelow e (SyncChain.batches c) \<longrightarrow>
        advanceChain e c =
          (None,
           c\<lparr>SyncChain.batches := filter (\<lambda>b. \<not> Batch.startEpoch b < e) (SyncChain.batches c),
             validatedEpochs :=
               validatedEpochs c
                 + EPOCHS_PER_BATCH
                     * int (length (filter (\<lambda>b. Batch.startEpoch b < e) (SyncChain.batches c))),
             reported :=
               reported c
                 @ concat (map reportsFor
                     (filter (\<lambda>b. Batch.startEpoch b < e) (SyncChain.batches c))),
             SyncChain.startEpoch := e\<rparr>))
   \<and> (SyncChain.startEpoch c < e \<and> \<not> validatedBelow e (SyncChain.batches c) \<longrightarrow>
        fst (advanceChain e c) = Some (BatchError WRONG_BATCH_STATE))"
proof -
  have "state b = StAwaitingValidation attemptOk \<longrightarrow>
        validationSuccess b = Inr attemptOk
        \<and> reportsFor b = reportAttempts attemptOk (failedProcessingAttempts b)"
    by (simp add: validationSuccess_def reportsFor_def)
  moreover have "status (state b) \<noteq> AwaitingValidation \<longrightarrow>
        validationSuccess b = Inl (BatchError WRONG_BATCH_STATE)"
    using validationSuccess_iff(2) [of b] by simp
  moreover note reportAttempts_filter [of attemptOk attempts]
  moreover have "SyncChain.startEpoch c < e \<and> \<not> validatedBelow e (SyncChain.batches c) \<longrightarrow>
        fst (advanceChain e c) = Some (BatchError WRONG_BATCH_STATE)"
    using advanceChain_fail(1) [of c e] by blast
  ultimately show ?thesis using advanceChain_ok [of c e] by blast
qed

theorem advanceChain_reports_witness:
  "advanceChain 4 (chainWith
      [(batchIn 0 (StAwaitingValidation \<lparr>peer = 2, hash = [8]\<rparr>))
         \<lparr>failedProcessingAttempts :=
            [\<lparr>peer = 1, hash = [7]\<rparr>, \<lparr>peer = 2, hash = [6]\<rparr>, \<lparr>peer = 3, hash = [8]\<rparr>]\<rparr>,
       batchIn 2 (StAwaitingValidation \<lparr>peer = 3, hash = [5]\<rparr>),
       batchIn 4 (StAwaitingProcessing 1 [4])])
     = (None,
        (chainWith [batchIn 4 (StAwaitingProcessing 1 [4])])
          \<lparr>validatedEpochs := 4,
            reported := [(1, LowToleranceError, ''SyncChainInvalidBatchOther''),
                         (2, MidToleranceError, ''SyncChainInvalidBatchSelf'')],
            SyncChain.startEpoch := 4\<rparr>)
   \<and> validationSuccess (batchIn 2 (StDownloading 3 []))
       = Inl (BatchError WRONG_BATCH_STATE)
   \<and> fst (advanceChain 4 (chainWith [batchIn 2 (StDownloading 3 [])]))
       = Some (BatchError WRONG_BATCH_STATE)"
  using advanceChain_reports
      [of "\<lparr>peer = 2, hash = [8]\<rparr>"
          "[\<lparr>peer = 1, hash = [7]\<rparr>, \<lparr>peer = 2, hash = [6]\<rparr>, \<lparr>peer = 3, hash = [8]\<rparr>]"
          "(batchIn 0 (StAwaitingValidation \<lparr>peer = 2, hash = [8]\<rparr>))
             \<lparr>failedProcessingAttempts :=
                [\<lparr>peer = 1, hash = [7]\<rparr>, \<lparr>peer = 2, hash = [6]\<rparr>, \<lparr>peer = 3, hash = [8]\<rparr>]\<rparr>"
          "chainWith
            [(batchIn 0 (StAwaitingValidation \<lparr>peer = 2, hash = [8]\<rparr>))
               \<lparr>failedProcessingAttempts :=
                  [\<lparr>peer = 1, hash = [7]\<rparr>, \<lparr>peer = 2, hash = [6]\<rparr>, \<lparr>peer = 3, hash = [8]\<rparr>]\<rparr>,
             batchIn 2 (StAwaitingValidation \<lparr>peer = 3, hash = [5]\<rparr>),
             batchIn 4 (StAwaitingProcessing 1 [4])]"
          4]
    advanceChain_reports
      [of "\<lparr>peer = 2, hash = [8]\<rparr>" "[]" "batchIn 2 (StDownloading 3 [])"
          "chainWith [batchIn 2 (StDownloading 3 [])]" 4]
  by (simp add: chainWith_def new_SyncChain_def batchIn_def new_Batch_def validatedBelow_def
      reportsFor_def validationSuccess_def EPOCHS_PER_BATCH_def)

text \<open>
  A validated batch followed by one still downloading, both below the boundary: with
  \<open>validationSuccess\<close> called only in \<open>AwaitingValidation\<close> (\<open>advanceChain_spec\<close>) the
  second batch is dropped and the chain moves to epoch 4; \<open>advanceChain\<close> throws on it.
\<close>

theorem advanceChain_validationSuccess_example:
  "advanceChain 4 (chainWith
      [(batchIn 0 (StAwaitingValidation \<lparr>peer = 2, hash = [8]\<rparr>))
         \<lparr>failedProcessingAttempts := [\<lparr>peer = 1, hash = [7]\<rparr>]\<rparr>,
       batchIn 2 (StDownloading 3 [])])
     = (Some (BatchError WRONG_BATCH_STATE),
        (chainWith [])
          \<lparr>validatedEpochs := 4,
            reported := [(1, LowToleranceError, ''SyncChainInvalidBatchOther'')]\<rparr>)
   \<and> advanceChain_spec 4 (chainWith
      [(batchIn 0 (StAwaitingValidation \<lparr>peer = 2, hash = [8]\<rparr>))
         \<lparr>failedProcessingAttempts := [\<lparr>peer = 1, hash = [7]\<rparr>]\<rparr>,
       batchIn 2 (StDownloading 3 [])])
     = (chainWith [])
          \<lparr>validatedEpochs := 4,
            reported := [(1, LowToleranceError, ''SyncChainInvalidBatchOther'')],
            SyncChain.startEpoch := 4\<rparr>"
  by (simp add: advanceChain_def advanceChain_spec_def chainWith_def new_SyncChain_def
      batchIn_def new_Batch_def validationSuccess_def mapDelete_def EPOCHS_PER_BATCH_def Let_def)

section \<open>Starting, stopping and ending a chain\<close>

lemma advanceChain_loop_surroundings:
  "sameSurroundings c (snd (advanceChain_loop e bs c))"
proof (induction bs arbitrary: c)
  case Nil
  show ?case by (simp add: sameSurroundings_def)
next
  case (Cons b bs)
  show ?case
  proof (cases "Batch.startEpoch b < e")
    case False
    then show ?thesis using Cons.IH [of c] by simp
  next
    case True
    show ?thesis
    proof (cases "validationSuccess b")
      case (Inl err)
      with True show ?thesis by (simp add: Let_def sameSurroundings_def)
    next
      case (Inr a)
      let ?c2 = "c\<lparr>SyncChain.batches := mapDelete (Batch.startEpoch b) (SyncChain.batches c),
                 validatedEpochs := validatedEpochs c + EPOCHS_PER_BATCH,
                 reported := reported c @ reportAttempts a (failedProcessingAttempts b)\<rparr>"
      from Cons.IH [of ?c2] True Inr show ?thesis
        by (simp add: Let_def sameSurroundings_def)
    qed
  qed
qed

lemma advanceChain_surroundings: "sameSurroundings c (snd (advanceChain e c))"
proof (cases "e \<le> SyncChain.startEpoch c")
  case True
  then show ?thesis by (simp add: advanceChain_def sameSurroundings_def)
next
  case False
  obtain r c' where l: "advanceChain_loop e (SyncChain.batches c) c = (r, c')"
    by (cases "advanceChain_loop e (SyncChain.batches c) c")
  from advanceChain_loop_surroundings [of c e "SyncChain.batches c"] l
  have "sameSurroundings c c'" by simp
  with False l show ?thesis
    by (cases r) (simp_all add: advanceChain_def sameSurroundings_def)
qed

lemma advanceChain_throws:
  "fst (advanceChain e c) = None \<or> fst (advanceChain e c) = Some (BatchError WRONG_BATCH_STATE)"
proof (cases "e \<le> SyncChain.startEpoch c")
  case True
  then show ?thesis by (simp add: advanceChain_def)
next
  case False
  then have lt: "SyncChain.startEpoch c < e" by simp
  show ?thesis
  proof (cases "validatedBelow e (SyncChain.batches c)")
    case True
    from advanceChain_ok [OF lt True] show ?thesis by simp
  next
    case False
    from advanceChain_fail(1) [OF lt False] show ?thesis by simp
  qed
qed

lemma startSyncing_Stopped:
  assumes "chainStatus c = Stopped"
  shows "startSyncing e c
     = advanceChain
         (SyncChain.startEpoch c
            + ((e - SyncChain.startEpoch c) div EPOCHS_PER_BATCH) * EPOCHS_PER_BATCH)
         (c\<lparr>chainStatus := Syncing\<rparr>)"
    and "chainStatus (snd (startSyncing e c)) = Syncing"
    and "fst (startSyncing e c) \<noteq> Some SyncChainStartError"
proof -
  let ?c1 = "c\<lparr>chainStatus := Syncing\<rparr>"
  let ?a = "SyncChain.startEpoch c
            + ((e - SyncChain.startEpoch c) div EPOCHS_PER_BATCH) * EPOCHS_PER_BATCH"
  show eq: "startSyncing e c = advanceChain ?a ?c1"
    using assms by (simp add: startSyncing_def Let_def)
  from advanceChain_surroundings [of ?c1 ?a]
  show "chainStatus (snd (startSyncing e c)) = Syncing"
    unfolding eq by (simp add: sameSurroundings_def)
  from advanceChain_throws [of ?a ?c1]
  show "fst (startSyncing e c) \<noteq> Some SyncChainStartError"
    unfolding eq by auto
qed

text \<open>
  C10. For every chain whose status is \<open>Synced\<close> or \<open>Error\<close> (so \<open>isRemovable\<close>, and
  \<open>startSyncing\<close> fails with the start error), \<open>stopSyncing\<close> sets the status to
  \<open>Stopped\<close>; then \<open>isRemovable\<close> is false and \<open>startSyncing\<close> no longer fails with the
  start error but sets the status to \<open>Syncing\<close>.
\<close>

theorem stopSyncing_reopens:
  "(chainStatus c = Synced \<or> chainStatus c = Error) \<longrightarrow>
     isRemovable c
     \<and> startSyncing e c = (Some SyncChainStartError, c)
     \<and> chainStatus (stopSyncing c) = Stopped
     \<and> \<not> isRemovable (stopSyncing c)
     \<and> fst (startSyncing e (stopSyncing c)) \<noteq> Some SyncChainStartError
     \<and> chainStatus (snd (startSyncing e (stopSyncing c))) = Syncing"
proof
  assume a: "chainStatus c = Synced \<or> chainStatus c = Error"
  have s: "chainStatus (stopSyncing c) = Stopped" by (simp add: stopSyncing_def)
  from a have "isRemovable c" "startSyncing e c = (Some SyncChainStartError, c)"
    by (auto simp: isRemovable_def startSyncing_def)
  moreover from s have "\<not> isRemovable (stopSyncing c)" by (simp add: isRemovable_def)
  ultimately show "isRemovable c
     \<and> startSyncing e c = (Some SyncChainStartError, c)
     \<and> chainStatus (stopSyncing c) = Stopped
     \<and> \<not> isRemovable (stopSyncing c)
     \<and> fst (startSyncing e (stopSyncing c)) \<noteq> Some SyncChainStartError
     \<and> chainStatus (snd (startSyncing e (stopSyncing c))) = Syncing"
    using s startSyncing_Stopped(2,3) [OF s] by simp
qed

theorem stopSyncing_reopens_witness:
  "chainStatus ((chainWith [])\<lparr>chainStatus := Error\<rparr>) = Error
   \<and> startSyncing 7 ((chainWith [])\<lparr>chainStatus := Error\<rparr>)
       = (Some SyncChainStartError, (chainWith [])\<lparr>chainStatus := Error\<rparr>)
   \<and> chainStatus (stopSyncing ((chainWith [])\<lparr>chainStatus := Error\<rparr>)) = Stopped
   \<and> \<not> isRemovable (stopSyncing ((chainWith [])\<lparr>chainStatus := Error\<rparr>))
   \<and> startSyncing 7 (stopSyncing ((chainWith [])\<lparr>chainStatus := Error\<rparr>))
       = (None, (chainWith [])\<lparr>SyncChain.startEpoch := 6\<rparr>)"
  using stopSyncing_reopens [of "(chainWith [])\<lparr>chainStatus := Error\<rparr>" 7]
  by (simp add: chainWith_def new_SyncChain_def stopSyncing_def startSyncing_def
      advanceChain_def isRemovable_def EPOCHS_PER_BATCH_def)

text \<open>
  C7. \<open>startSyncing\<close> is a no-op on a syncing chain, fails with the start error on a
  synced or failed one, and on a stopped one sets \<open>Syncing\<close> and advances the chain to
  \<open>startEpoch + \<lfloor>(localFinalizedEpoch - startEpoch) / 2\<rfloor> \<cdot> 2\<close>: the constant
  \<open>EPOCHS_PER_BATCH\<close>, not the \<open>epochsPerBatch\<close> the chain was configured with. With
  \<open>epochsPerBatch = 3\<close>, anchor 0 and finalized epoch 5 the chain moves to 4, where the
  aligned epoch of the spec is 3.
\<close>

theorem startSyncing_alignment:
  "(chainStatus c = Syncing \<longrightarrow> startSyncing e c = (None, c))
   \<and> (chainStatus c = Synced \<or> chainStatus c = Error \<longrightarrow>
        startSyncing e c = (Some SyncChainStartError, c))
   \<and> (chainStatus c = Stopped \<longrightarrow>
        startSyncing e c
          = advanceChain
              (SyncChain.startEpoch c
                 + ((e - SyncChain.startEpoch c) div EPOCHS_PER_BATCH) * EPOCHS_PER_BATCH)
              (c\<lparr>chainStatus := Syncing\<rparr>)
        \<and> chainStatus (snd (startSyncing e c)) = Syncing)"
  using startSyncing_Stopped(1,2) [of c e]
  by (auto simp: startSyncing_def)

theorem startSyncing_alignment_witness:
  "chainStatus (new_SyncChain 0 Finalized (Some 3)) = Stopped
   \<and> epochsPerBatch (opts (new_SyncChain 0 Finalized (Some 3))) = 3
   \<and> startSyncing 5 (new_SyncChain 0 Finalized (Some 3))
       = (None, (new_SyncChain 0 Finalized (Some 3))
                  \<lparr>SyncChain.startEpoch := 4, chainStatus := Syncing\<rparr>)
   \<and> alignedEpoch_spec (new_SyncChain 0 Finalized (Some 3)) 5 = 3"
  using startSyncing_alignment [of "new_SyncChain 0 Finalized (Some 3)" 5]
  by (simp add: new_SyncChain_def advanceChain_def alignedEpoch_spec_def EPOCHS_PER_BATCH_def)





lemma sameSurroundings_batches_eq [simp]:
  "sameSurroundings (c\<lparr>SyncChain.batches := bs\<rparr>) c' = sameSurroundings c c'"
  "sameSurroundings c (c'\<lparr>SyncChain.batches := bs\<rparr>) = sameSurroundings c c'"
  by (simp_all add: sameSurroundings_def)















section \<open>The processing cap\<close>







section \<open>The download cap\<close>






section \<open>The download buffer\<close>

text \<open>
  The scenario of the held processor: batch 0 is being processed and stays so, and the
  downloader keeps asking for the next batch from peer 1, each download succeeding at
  once. \<open>fillBuffer n\<close> is \<open>n\<close> such rounds; \<open>fullBuffer\<close> is the chain after five.
\<close>

definition heldChain :: SyncChain where
  "heldChain = chainWith [batchIn 0 (StProcessing \<lparr>peer = 1, hash = []\<rparr>)]"

fun fillBuffer :: "IBeaconConfig \<Rightarrow> nat \<Rightarrow> SyncChain \<Rightarrow> SyncChain" where
  "fillBuffer config 0 c = c"
| "fillBuffer config (Suc n) c =
     fillBuffer config n
       (case includeNextBatch config c of
          (None, c') \<Rightarrow> c'
        | (Some batch, c') \<Rightarrow>
            chain_step config (Downloaded (Batch.startEpoch batch) (DownloadOk []))
              (sendBatch_begin batch 1 c'))"

definition fullBuffer :: SyncChain where
  "fullBuffer =
     chainWith [batchIn 0 (StProcessing \<lparr>peer = 1, hash = []\<rparr>),
                batchIn 2 (StAwaitingProcessing 1 []),
                batchIn 4 (StAwaitingProcessing 1 []),
                batchIn 6 (StAwaitingProcessing 1 []),
                batchIn 8 (StAwaitingProcessing 1 []),
                batchIn 10 (StAwaitingProcessing 1 [])]"

lemmas scenario_defs =
  heldChain_def fullBuffer_def chainWith_def new_SyncChain_def
  batchIn_def new_Batch_def includeNextBatch_def inBuffer_def BATCH_BUFFER_SIZE_def
  toBeDownloadedStartEpoch_def computeStartSlotAtEpoch_def exampleConfig_def
  BATCH_SLOT_OFFSET_def exampleTarget_def mapHas_def mapSet_def sendBatch_begin_def
  range_startDownloading_def mapReplace_def mapGet_def sendBatch_settle_def
  range_downloadingSuccess_def
  EPOCHS_PER_BATCH_def Let_def

lemma fillBuffer_5: "fillBuffer exampleConfig 5 heldChain = fullBuffer"
  by (simp add: eval_nat_numeral scenario_defs)

lemma fillBuffer_add:
  "fillBuffer config (m + n) c = fillBuffer config n (fillBuffer config m c)"
  by (induction m arbitrary: c) simp_all

lemma includeNextBatch_full:
  "length (filter inBuffer (SyncChain.batches c)) > BATCH_BUFFER_SIZE \<Longrightarrow>
     includeNextBatch config c = (None, c)"
  by (simp add: includeNextBatch_def Let_def)

lemma fillBuffer_full:
  "length (filter inBuffer (SyncChain.batches c)) > BATCH_BUFFER_SIZE \<Longrightarrow>
     fillBuffer config n c = c"
  by (induction n) (simp_all add: includeNextBatch_full)

lemma new_Batch_startEpoch: "Batch.startEpoch (new_Batch config e n) = e"
  by (simp add: new_Batch_def Let_def)

definition nextStartEpoch :: "SyncChain \<Rightarrow> Epoch" where
  "nextStartEpoch c =
     toBeDownloadedStartEpoch (SyncChain.batches c) (SyncChain.startEpoch c)
       (epochsPerBatch (opts c))"

definition beyondTarget :: "IBeaconConfig \<Rightarrow> SyncChain \<Rightarrow> bool" where
  "beyondTarget config c =
     (case target c of
        None \<Rightarrow> False
      | Some t \<Rightarrow> computeStartSlotAtEpoch config (nextStartEpoch c) + BATCH_SLOT_OFFSET > slot t)"

lemma includeNextBatch_cases:
  "includeNextBatch config c =
     (if length (filter inBuffer (SyncChain.batches c)) > BATCH_BUFFER_SIZE
         \<or> beyondTarget config c \<or> mapHas (nextStartEpoch c) (SyncChain.batches c)
      then (None, c)
      else (Some (new_Batch config (nextStartEpoch c) (epochsPerBatch (opts c))),
            c\<lparr>SyncChain.batches :=
                SyncChain.batches c
                  @ [new_Batch config (nextStartEpoch c) (epochsPerBatch (opts c))]\<rparr>))"
  unfolding includeNextBatch_def beyondTarget_def nextStartEpoch_def
  by (simp add: Let_def mapSet_def new_Batch_startEpoch)

text \<open>
  C3 (as amended). With \<open>BATCH_BUFFER_SIZE = 5\<close>, \<open>includeNextBatch\<close> returns nothing
  and changes nothing when more than five batches are in \<open>Downloading\<close> or
  \<open>AwaitingProcessing\<close>; it returns a batch exactly when at most five are, the next
  batch does not start beyond the target, and its epoch is not in the map yet, and then
  the batch is the new one at the next start epoch, added last. So the buffer holds up
  to six. With \<open>epochs_per_batch = 2\<close> and the processor held on the batch at epoch 0 the
  downloader creates the batches up to and including \<open>startEpoch = 12\<close>; once those six
  are in \<open>AwaitingProcessing\<close> every further call returns nothing and changes nothing,
  for as long as the processor is held. The same guard stands in
  \<open>SyncingChain.includeNextBatch\<close>.
\<close>

theorem includeNextBatch_buffer:
  "(length (filter inBuffer (SyncChain.batches c)) > BATCH_BUFFER_SIZE \<longrightarrow>
      includeNextBatch config c = (None, c))
   \<and> ((\<exists>b. fst (includeNextBatch config c) = Some b)
        = (length (filter inBuffer (SyncChain.batches c)) \<le> BATCH_BUFFER_SIZE
           \<and> \<not> beyondTarget config c
           \<and> \<not> mapHas (nextStartEpoch c) (SyncChain.batches c)))
   \<and> (includeNextBatch config c = (Some b, c') \<longrightarrow>
        b = new_Batch config (nextStartEpoch c) (epochsPerBatch (opts c))
        \<and> c' = c\<lparr>SyncChain.batches := SyncChain.batches c @ [b]\<rparr>)
   \<and> (fst (includeNextBatch config c) = None \<longrightarrow> snd (includeNextBatch config c) = c)
   \<and> (length (filter inBuffer (SyncingChain.batches s)) > BATCH_BUFFER_SIZE \<longrightarrow>
        SyncingChain_includeNextBatch config targetEpoch s = (None, s))
   \<and> map Batch.startEpoch (SyncChain.batches (fillBuffer exampleConfig 6 heldChain))
       = [0, 2, 4, 6, 8, 10, 12]
   \<and> map (\<lambda>b. status (state b)) (SyncChain.batches (fillBuffer exampleConfig 6 heldChain))
       = [Processing, AwaitingProcessing, AwaitingProcessing, AwaitingProcessing,
          AwaitingProcessing, AwaitingProcessing, AwaitingProcessing]
   \<and> includeNextBatch exampleConfig (fillBuffer exampleConfig 6 heldChain)
       = (None, fillBuffer exampleConfig 6 heldChain)
   \<and> fillBuffer exampleConfig (6 + n) heldChain = fillBuffer exampleConfig 6 heldChain"
proof -
  have six: "map Batch.startEpoch (SyncChain.batches (fillBuffer exampleConfig 6 heldChain))
       = [0, 2, 4, 6, 8, 10, 12]"
    "map (\<lambda>b. status (state b)) (SyncChain.batches (fillBuffer exampleConfig 6 heldChain))
       = [Processing, AwaitingProcessing, AwaitingProcessing, AwaitingProcessing,
          AwaitingProcessing, AwaitingProcessing, AwaitingProcessing]"
    using fillBuffer_add [of exampleConfig 5 1 heldChain]
    by (simp_all add: fillBuffer_5) (simp_all add: scenario_defs)
  have full: "length (filter inBuffer (SyncChain.batches (fillBuffer exampleConfig 6 heldChain)))
      > BATCH_BUFFER_SIZE"
    using fillBuffer_add [of exampleConfig 5 1 heldChain]
    by (simp add: fillBuffer_5) (simp add: scenario_defs)
  have stay: "fillBuffer exampleConfig (6 + n) heldChain = fillBuffer exampleConfig 6 heldChain"
    unfolding fillBuffer_add by (rule fillBuffer_full [OF full])
  have asm: "length (filter inBuffer (SyncingChain.batches s)) > BATCH_BUFFER_SIZE \<longrightarrow>
        SyncingChain_includeNextBatch config targetEpoch s = (None, s)"
    by (simp add: SyncingChain_includeNextBatch_def)
  have guard: "length (filter inBuffer (SyncChain.batches c)) > BATCH_BUFFER_SIZE \<longrightarrow>
      includeNextBatch config c = (None, c)"
    by (simp add: includeNextBatch_full)
  have exact: "(\<exists>b. fst (includeNextBatch config c) = Some b)
        = (length (filter inBuffer (SyncChain.batches c)) \<le> BATCH_BUFFER_SIZE
           \<and> \<not> beyondTarget config c
           \<and> \<not> mapHas (nextStartEpoch c) (SyncChain.batches c))"
    by (auto simp: includeNextBatch_cases)
  have made: "includeNextBatch config c = (Some b, c') \<longrightarrow>
        b = new_Batch config (nextStartEpoch c) (epochsPerBatch (opts c))
        \<and> c' = c\<lparr>SyncChain.batches := SyncChain.batches c @ [b]\<rparr>"
    by (auto simp: includeNextBatch_cases split: if_splits)
  have none: "fst (includeNextBatch config c) = None \<longrightarrow> snd (includeNextBatch config c) = c"
    by (auto simp: includeNextBatch_cases split: if_splits)
  from guard exact made none asm six includeNextBatch_full [OF full, of exampleConfig] stay
  show ?thesis by (intro conjI)
qed

theorem includeNextBatch_buffer_witness:
  "length (filter inBuffer (SyncChain.batches fullBuffer)) = BATCH_BUFFER_SIZE
   \<and> includeNextBatch exampleConfig fullBuffer
       = (Some (new_Batch exampleConfig 12 2),
          fullBuffer\<lparr>SyncChain.batches :=
            SyncChain.batches fullBuffer @ [new_Batch exampleConfig 12 2]\<rparr>)
   \<and> includeNextBatch exampleConfig
        (fullBuffer\<lparr>SyncChain.batches :=
            SyncChain.batches fullBuffer @ [batchIn 12 (StDownloading 2 [])]\<rparr>)
       = (None, fullBuffer\<lparr>SyncChain.batches :=
            SyncChain.batches fullBuffer @ [batchIn 12 (StDownloading 2 [])]\<rparr>)
   \<and> SyncingChain_includeNextBatch exampleConfig 100
        \<lparr>SyncingChain.startEpoch = 0, downloaderTarget = 14, processorTarget = 0,
         validatedBatches = 0,
         batches = SyncChain.batches fullBuffer @ [batchIn 12 (StDownloading 2 [])]\<rparr>
       = (None,
        \<lparr>SyncingChain.startEpoch = 0, downloaderTarget = 14, processorTarget = 0,
         validatedBatches = 0,
         batches = SyncChain.batches fullBuffer @ [batchIn 12 (StDownloading 2 [])]\<rparr>)"
  using includeNextBatch_buffer
      [of fullBuffer exampleConfig "new_Batch exampleConfig 12 2"
          "fullBuffer\<lparr>SyncChain.batches :=
            SyncChain.batches fullBuffer @ [new_Batch exampleConfig 12 2]\<rparr>"
          "\<lparr>SyncingChain.startEpoch = 0, downloaderTarget = 14, processorTarget = 0,
            validatedBatches = 0,
            batches = SyncChain.batches fullBuffer @ [batchIn 12 (StDownloading 2 [])]\<rparr>"
          100 0]
    includeNextBatch_buffer
      [of "fullBuffer\<lparr>SyncChain.batches :=
            SyncChain.batches fullBuffer @ [batchIn 12 (StDownloading 2 [])]\<rparr>"
          exampleConfig "new_Batch exampleConfig 12 2" fullBuffer
          "\<lparr>SyncingChain.startEpoch = 0, downloaderTarget = 14, processorTarget = 0,
            validatedBatches = 0,
            batches = SyncChain.batches fullBuffer @ [batchIn 12 (StDownloading 2 [])]\<rparr>"
          100 0]
  by (simp add: scenario_defs nextStartEpoch_def beyondTarget_def)

text \<open>
  The claim as first stated stops at epoch 10: but with batch 0 in \<open>Processing\<close> and the
  five batches 2 to 10 in \<open>AwaitingProcessing\<close>, \<open>includeNextBatch\<close> returns the batch
  of epoch 12.
\<close>

theorem includeNextBatch_buffer_counterexample:
  "map (\<lambda>b. (Batch.startEpoch b, status (state b))) (SyncChain.batches fullBuffer)
     = [(0, Processing), (2, AwaitingProcessing), (4, AwaitingProcessing),
        (6, AwaitingProcessing), (8, AwaitingProcessing), (10, AwaitingProcessing)]
   \<and> fst (includeNextBatch exampleConfig fullBuffer) = Some (new_Batch exampleConfig 12 2)
   \<and> Batch.startEpoch (new_Batch exampleConfig 12 2) = 12"
  by (simp add: scenario_defs)

section \<open>The peer for a retry\<close>

text \<open>A batch of epoch 2 that peer 1 failed to download and peer 4 sent unprocessable.\<close>

definition retriedBatch :: Batch where
  "retriedBatch =
     (batchIn 2 StAwaitingDownload)
       \<lparr>failedDownloadAttempts := [1],
        failedProcessingAttempts := [\<lparr>peer = 4, hash = [7]\<rparr>]\<rparr>"

lemma sort_key_hd_min:
  assumes "xs \<noteq> []"
  shows "\<exists>h t. sort_key k xs = h # t \<and> h \<in> set xs \<and> (\<forall>y \<in> set xs. k h \<le> k y)"
proof -
  have "length (sort_key k xs) = length xs" by simp
  with assms have "sort_key k xs \<noteq> []" by (metis length_0_conv)
  then obtain h t where ht: "sort_key k xs = h # t" by (cases "sort_key k xs") auto
  have "sorted (map k (sort_key k xs))" by simp
  with ht have le: "\<forall>y \<in> set t. k h \<le> k y" by simp
  have "set (h # t) = set xs" using ht set_sort [of k xs] by simp
  with le have "h \<in> set xs" "\<forall>y \<in> set xs. k h \<le> k y" by auto
  with ht show ?thesis by blast
qed

lemma sortBy_hd_min:
  assumes "arr \<noteq> []"
  shows "\<exists>h t. sortBy arr [f, g] = h # t \<and> h \<in> set arr
           \<and> (\<forall>y \<in> set arr. f h < f y \<or> (f h = f y \<and> g h \<le> g y))"
proof -
  from sort_key_hd_min [OF assms, of "\<lambda>item. map (\<lambda>condition. condition item) [f, g]"]
  obtain h t where ht: "sortBy arr [f, g] = h # t" "h \<in> set arr"
    and le: "\<forall>y \<in> set arr. [f h, g h] \<le> [f y, g y]"
    by (auto simp: sortBy_def)
  from le have "\<forall>y \<in> set arr. f h < f y \<or> (f h = f y \<and> g h \<le> g y)"
    by (auto simp: Cons_le_Cons)
  with ht show ?thesis by blast
qed

lemma peerToRetry_pick:
  assumes ne: "peerList \<noteq> []"
  shows "\<exists>p. peerToRetry peerList act batch = Some p \<and> p \<in> set peerList
           \<and> (p \<in> set (getFailedPeers batch) \<longrightarrow> set peerList \<subseteq> set (getFailedPeers batch))
           \<and> (\<forall>q \<in> set peerList.
                 (q \<in> set (getFailedPeers batch)) = (p \<in> set (getFailedPeers batch)) \<longrightarrow>
                 act p \<le> act q)"
proof -
  let ?f = "\<lambda>p. if p \<in> set (getFailedPeers batch) then 1 else (0::int)"
  let ?g = "\<lambda>p. int (act p)"
  from sortBy_hd_min [OF ne, of ?f ?g]
  obtain h t where ht: "sortBy peerList [?f, ?g] = h # t" "h \<in> set peerList"
    and le: "\<forall>y \<in> set peerList. ?f h < ?f y \<or> (?f h = ?f y \<and> ?g h \<le> ?g y)"
    by blast
  have sel: "peerToRetry peerList act batch = Some h"
    using ht(1) by (simp add: peerToRetry_def Let_def)
  have a: "h \<in> set (getFailedPeers batch) \<longrightarrow> set peerList \<subseteq> set (getFailedPeers batch)"
  proof (intro impI subsetI)
    fix x assume hf: "h \<in> set (getFailedPeers batch)" and "x \<in> set peerList"
    with le have "?f h < ?f x \<or> (?f h = ?f x \<and> ?g h \<le> ?g x)" by blast
    with hf show "x \<in> set (getFailedPeers batch)" by (auto split: if_splits)
  qed
  have b: "\<forall>q \<in> set peerList.
        (q \<in> set (getFailedPeers batch)) = (h \<in> set (getFailedPeers batch)) \<longrightarrow>
        act h \<le> act q"
  proof (intro ballI impI)
    fix q assume "q \<in> set peerList"
      and same: "(q \<in> set (getFailedPeers batch)) = (h \<in> set (getFailedPeers batch))"
    with le have "?f h < ?f q \<or> (?f h = ?f q \<and> ?g h \<le> ?g q)" by blast
    with same show "act h \<le> act q"
      by (auto split: if_splits)
  qed
  from sel ht(2) a b show ?thesis by blast
qed

lemma peerToRetry_none: "peerToRetry [] act batch = None"
  by (simp add: peerToRetry_def sortBy_def)

lemma retryBatch_other:
  "status (state batch) \<noteq> AwaitingDownload \<Longrightarrow> retryBatch peerList act batch = batch"
  by (simp add: retryBatch_def)

lemma retryBatch_no_peer: "retryBatch [] act batch = batch"
  by (simp add: retryBatch_def peerToRetry_none)

lemma retryBatch_pick:
  assumes "status (state batch) = AwaitingDownload" and "peerToRetry peerList act batch = Some p"
  shows "retryBatch peerList act batch = batch\<lparr>state := StDownloading p []\<rparr>"
proof -
  from assms(1) have "state batch = StAwaitingDownload"
    by (cases "state batch") simp_all
  with assms show ?thesis by (simp add: retryBatch_def startDownloading_def)
qed

text \<open>
  C8 (as amended). The retry loop of \<open>SyncingChain.requestBatches\<close> leaves every batch
  that is not in \<open>AwaitingDownload\<close> as it is, and changes nothing when there is no
  peer. With a peer, every batch in \<open>AwaitingDownload\<close> starts downloading from a peer of
  the list; that peer is one of \<open>getFailedPeers\<close> only when every peer is (failed peers
  come last, they are not excluded); and among the peers that share its standing, failed
  or not, it has the fewest downloads active when the call began: the counts are those
  of the batches before the loop, whatever downloads the loop has started since.
\<close>

theorem requestBatches_retry_deprioritizes:
  "requestBatches_retry [] c = c
   \<and> length (SyncingChain.batches (requestBatches_retry peerList c))
       = length (SyncingChain.batches c)
   \<and> (\<forall>i < length (SyncingChain.batches c).
        (status (state (SyncingChain.batches c ! i)) \<noteq> AwaitingDownload \<longrightarrow>
           SyncingChain.batches (requestBatches_retry peerList c) ! i
             = SyncingChain.batches c ! i)
        \<and> (status (state (SyncingChain.batches c ! i)) = AwaitingDownload
             \<and> peerList \<noteq> [] \<longrightarrow>
           (\<exists>p. SyncingChain.batches (requestBatches_retry peerList c) ! i
                  = (SyncingChain.batches c ! i)\<lparr>state := StDownloading p []\<rparr>
              \<and> p \<in> set peerList
              \<and> (p \<in> set (getFailedPeers (SyncingChain.batches c ! i)) \<longrightarrow>
                   set peerList \<subseteq> set (getFailedPeers (SyncingChain.batches c ! i)))
              \<and> (\<forall>q \<in> set peerList.
                    (q \<in> set (getFailedPeers (SyncingChain.batches c ! i)))
                      = (p \<in> set (getFailedPeers (SyncingChain.batches c ! i))) \<longrightarrow>
                    getActiveRequestsByPeer (SyncingChain.batches c) p
                      \<le> getActiveRequestsByPeer (SyncingChain.batches c) q))))"
proof (intro conjI allI impI)
  have "map (retryBatch [] (getActiveRequestsByPeer (SyncingChain.batches c)))
          (SyncingChain.batches c) = SyncingChain.batches c"
    by (rule map_idI) (simp add: retryBatch_no_peer)
  then show "requestBatches_retry [] c = c"
    by (simp add: requestBatches_retry_def Let_def)
next
  show "length (SyncingChain.batches (requestBatches_retry peerList c))
       = length (SyncingChain.batches c)"
    by (simp add: requestBatches_retry_def Let_def)
next
  fix i assume i: "i < length (SyncingChain.batches c)"
    and "status (state (SyncingChain.batches c ! i)) \<noteq> AwaitingDownload"
  then show "SyncingChain.batches (requestBatches_retry peerList c) ! i
             = SyncingChain.batches c ! i"
    by (simp add: requestBatches_retry_def Let_def retryBatch_other)
next
  fix i assume i: "i < length (SyncingChain.batches c)"
    and a: "status (state (SyncingChain.batches c ! i)) = AwaitingDownload \<and> peerList \<noteq> []"
  let ?b = "SyncingChain.batches c ! i"
  let ?act = "getActiveRequestsByPeer (SyncingChain.batches c)"
  from a peerToRetry_pick [of peerList ?act ?b]
  obtain p where p: "peerToRetry peerList ?act ?b = Some p" "p \<in> set peerList"
      "p \<in> set (getFailedPeers ?b) \<longrightarrow> set peerList \<subseteq> set (getFailedPeers ?b)"
      "\<forall>q \<in> set peerList.
          (q \<in> set (getFailedPeers ?b)) = (p \<in> set (getFailedPeers ?b)) \<longrightarrow> ?act p \<le> ?act q"
    by blast
  from i a p(1) have "SyncingChain.batches (requestBatches_retry peerList c) ! i
      = ?b\<lparr>state := StDownloading p []\<rparr>"
    by (simp add: requestBatches_retry_def Let_def retryBatch_pick)
  with p(2-) show "\<exists>p. SyncingChain.batches (requestBatches_retry peerList c) ! i
                  = ?b\<lparr>state := StDownloading p []\<rparr>
              \<and> p \<in> set peerList
              \<and> (p \<in> set (getFailedPeers ?b) \<longrightarrow> set peerList \<subseteq> set (getFailedPeers ?b))
              \<and> (\<forall>q \<in> set peerList.
                    (q \<in> set (getFailedPeers ?b)) = (p \<in> set (getFailedPeers ?b)) \<longrightarrow>
                    ?act p \<le> ?act q)"
    by blast
qed

definition retryingChain :: "Batch list \<Rightarrow> SyncingChain" where
  "retryingChain bs =
     \<lparr>SyncingChain.startEpoch = 0, downloaderTarget = 10, processorTarget = 0,
      validatedBatches = 0, batches = bs\<rparr>"

lemmas retry_defs =
  requestBatches_retry_def retryBatch_def retryingChain_def startDownloading_def
  peerToRetry_def sortBy_def retriedBatch_def getFailedPeers_def getActiveRequestsByPeer_def
  batchIn_def new_Batch_def Let_def

theorem requestBatches_retry_deprioritizes_witness:
  "SyncingChain.batches
     (requestBatches_retry [1, 2, 3, 4]
        (retryingChain
           [batchIn 0 (StAwaitingProcessing 1 []), retriedBatch, batchIn 4 (StDownloading 2 []),
            batchIn 6 (StDownloading 2 []), batchIn 8 (StDownloading 3 [])]))
     = [batchIn 0 (StAwaitingProcessing 1 []), retriedBatch\<lparr>state := StDownloading 3 []\<rparr>,
        batchIn 4 (StDownloading 2 []), batchIn 6 (StDownloading 2 []),
        batchIn 8 (StDownloading 3 [])]
   \<and> getFailedPeers retriedBatch = [1, 4]
   \<and> map (getActiveRequestsByPeer
        [batchIn 0 (StAwaitingProcessing 1 []), retriedBatch, batchIn 4 (StDownloading 2 []),
         batchIn 6 (StDownloading 2 []), batchIn 8 (StDownloading 3 [])]) [2, 3] = [2, 1]
   \<and> SyncingChain.batches (requestBatches_retry [4, 1] (retryingChain [retriedBatch]))
       = [retriedBatch\<lparr>state := StDownloading 4 []\<rparr>]
   \<and> requestBatches_retry [] (retryingChain [retriedBatch]) = retryingChain [retriedBatch]"
  using requestBatches_retry_deprioritizes [of "retryingChain [retriedBatch]" "[4, 1]"]
    requestBatches_retry_deprioritizes
      [of "retryingChain
           [batchIn 0 (StAwaitingProcessing 1 []), retriedBatch, batchIn 4 (StDownloading 2 []),
            batchIn 6 (StDownloading 2 []), batchIn 8 (StDownloading 3 [])]" "[1, 2, 3, 4]"]
    requestBatches_retry_deprioritizes [of "retryingChain [retriedBatch]" "[]"]
  by (simp add: retry_defs)

text \<open>
  The claim as first stated never picks a failed peer, and picks the peer with the fewest
  downloads active at the time. With peer 1 alone, which failed a download of the batch,
  peer 1 is picked again. And with the idle peers 1 and 2 and two batches to retry, both
  batches go to the same peer: when the second is sent that peer already has a download
  running and the other has none.
\<close>

theorem requestBatches_retry_counterexample:
  "status (state retriedBatch) = AwaitingDownload
   \<and> getFailedPeers retriedBatch = [1, 4]
   \<and> SyncingChain.batches (requestBatches_retry [1] (retryingChain [retriedBatch]))
       = [retriedBatch\<lparr>state := StDownloading 1 []\<rparr>]
   \<and> SyncingChain.batches
        (requestBatches_retry [1, 2]
           (retryingChain [batchIn 2 StAwaitingDownload, batchIn 4 StAwaitingDownload]))
       = [batchIn 2 (StDownloading 1 []), batchIn 4 (StDownloading 1 [])]
   \<and> map (getActiveRequestsByPeer [batchIn 2 (StDownloading 1 []), batchIn 4 StAwaitingDownload])
        [1, 2] = [1, 0]"
  by (simp add: retry_defs)

section \<open>Chain selection (range/utils/updateChains.ts)\<close>

text \<open>
  The functions compare chain objects by identity (\<open>newSyncChain !== currentSyncChain\<close>);
  a chain is therefore paired with a number standing for its reference. \<open>chainOf n st v\<close>
  is a finalized chain with \<open>n\<close> peers, status \<open>st\<close> and \<open>v\<close> validated epochs.
\<close>

type_synonym SyncChainRef = "nat \<times> SyncChain"

record ChainsUpdate =
  toStart :: "SyncChainRef list"
  toStop :: "SyncChainRef list"

definition updateFinalizedChains :: "SyncChainRef list \<Rightarrow> ChainsUpdate option" where
  "updateFinalizedChains finalizedChains =
     (let preferredSyncChains =
            sortBy finalizedChains
              [\<lambda>syncChain. int (peers (snd syncChain)),
               \<lambda>syncChain. if isSyncing (snd syncChain) then 1 else 0]
      in case preferredSyncChains of
           [] \<Rightarrow> None
         | newSyncChain # _ \<Rightarrow>
             (case find (\<lambda>syncChain. isSyncing (snd syncChain)) finalizedChains of
                None \<Rightarrow> Some \<lparr> toStart = [newSyncChain], toStop = [] \<rparr>
              | Some currentSyncChain \<Rightarrow>
                  if fst newSyncChain \<noteq> fst currentSyncChain
                     \<and> peers (snd newSyncChain) > peers (snd currentSyncChain)
                     \<and> validatedEpochs (snd currentSyncChain)
                         > MIN_FINALIZED_CHAIN_VALIDATED_EPOCHS
                  then Some \<lparr> toStart = [newSyncChain], toStop = [currentSyncChain] \<rparr>
                  else Some \<lparr> toStart = [], toStop = [] \<rparr>))"

fun updateHeadChains_loop :: "SyncChainRef list \<Rightarrow> ChainsUpdate \<Rightarrow> ChainsUpdate" where
  "updateHeadChains_loop [] u = u"
| "updateHeadChains_loop (syncChain # rest) u =
     updateHeadChains_loop rest
       (if length (toStart u) < PARALLEL_HEAD_CHAINS
        then u\<lparr>toStart := toStart u @ [syncChain]\<rparr>
        else u\<lparr>toStop := toStop u @ [syncChain]\<rparr>)"

definition updateHeadChains :: "SyncChainRef list \<Rightarrow> ChainsUpdate" where
  "updateHeadChains headChains =
     updateHeadChains_loop
       (sortBy headChains
          [\<lambda>syncChain. int (peers (snd syncChain)),
           \<lambda>syncChain. if isSyncing (snd syncChain) then 1 else 0])
       \<lparr> toStart = [], toStop = [] \<rparr>"

definition updateChains :: "SyncChainRef list \<Rightarrow> ChainsUpdate" where
  "updateChains syncChains =
     (let finalizedChains = filter (\<lambda>chain. syncType (snd chain) = Finalized) syncChains;
          headChains = filter (\<lambda>chain. syncType (snd chain) \<noteq> Finalized) syncChains
      in case updateFinalizedChains finalizedChains of
           Some u \<Rightarrow> u
         | None \<Rightarrow> updateHeadChains headChains)"

definition chainOf :: "nat \<Rightarrow> SyncChainStatus \<Rightarrow> int \<Rightarrow> SyncChain" where
  "chainOf n st validated =
     (new_SyncChain 0 Finalized None)
       \<lparr> chainStatus := st,
         validatedEpochs := validated,
         peerset := map (\<lambda>p. (p, exampleTarget)) [0..<n] \<rparr>"

lemma find_Some_set: "find P xs = Some x \<Longrightarrow> x \<in> set xs"
  by (induction xs) (auto split: if_splits)

text \<open>
  C9. What \<open>updateFinalizedChains\<close> computes: with no finalized chain, nothing; with
  none of them syncing, it starts the first of the sorted chains, which has the fewest
  peers of all, not the most; with one syncing, it starts and stops nothing, since the
  first of the sorted chains never has more peers than the syncing one. Of a chain with
  five peers and one with a single peer, both stopped, it starts the one with a single
  peer.
\<close>

theorem updateFinalizedChains_picks_fewest:
  "(finalizedChains = [] \<longrightarrow> updateFinalizedChains finalizedChains = None)
   \<and> (finalizedChains \<noteq> []
        \<and> find (\<lambda>syncChain. isSyncing (snd syncChain)) finalizedChains = None \<longrightarrow>
        (\<exists>n. updateFinalizedChains finalizedChains = Some \<lparr> toStart = [n], toStop = [] \<rparr>
           \<and> n \<in> set finalizedChains
           \<and> (\<forall>x \<in> set finalizedChains. peers (snd n) \<le> peers (snd x))))
   \<and> (find (\<lambda>syncChain. isSyncing (snd syncChain)) finalizedChains \<noteq> None \<longrightarrow>
        updateFinalizedChains finalizedChains = Some \<lparr> toStart = [], toStop = [] \<rparr>)"
proof (intro conjI impI)
  assume "finalizedChains = []"
  then show "updateFinalizedChains finalizedChains = None"
    by (simp add: updateFinalizedChains_def sortBy_def)
next
  assume a: "finalizedChains \<noteq> []
        \<and> find (\<lambda>syncChain. isSyncing (snd syncChain)) finalizedChains = None"
  let ?f = "\<lambda>syncChain. int (peers (snd syncChain))"
  let ?g = "\<lambda>syncChain. if isSyncing (snd syncChain) then 1 else (0::int)"
  from a sortBy_hd_min [of finalizedChains ?f ?g]
  obtain h t where ht: "sortBy finalizedChains [?f, ?g] = h # t" "h \<in> set finalizedChains"
    and le: "\<forall>y \<in> set finalizedChains. ?f h < ?f y \<or> (?f h = ?f y \<and> ?g h \<le> ?g y)"
    by blast
  from le have "\<forall>x \<in> set finalizedChains. peers (snd h) \<le> peers (snd x)" by fastforce
  moreover have "updateFinalizedChains finalizedChains = Some \<lparr> toStart = [h], toStop = [] \<rparr>"
    using a ht(1) by (simp add: updateFinalizedChains_def Let_def)
  ultimately show "\<exists>n. updateFinalizedChains finalizedChains = Some \<lparr> toStart = [n], toStop = [] \<rparr>
           \<and> n \<in> set finalizedChains
           \<and> (\<forall>x \<in> set finalizedChains. peers (snd n) \<le> peers (snd x))"
    using ht(2) by blast
next
  assume "find (\<lambda>syncChain. isSyncing (snd syncChain)) finalizedChains \<noteq> None"
  then obtain cur where cur: "find (\<lambda>syncChain. isSyncing (snd syncChain)) finalizedChains = Some cur"
    by blast
  then have mem: "cur \<in> set finalizedChains" by (rule find_Some_set)
  then have ne: "finalizedChains \<noteq> []" by auto
  let ?f = "\<lambda>syncChain. int (peers (snd syncChain))"
  let ?g = "\<lambda>syncChain. if isSyncing (snd syncChain) then 1 else (0::int)"
  from sortBy_hd_min [OF ne, of ?f ?g]
  obtain h t where ht: "sortBy finalizedChains [?f, ?g] = h # t"
    and le: "\<forall>y \<in> set finalizedChains. ?f h < ?f y \<or> (?f h = ?f y \<and> ?g h \<le> ?g y)"
    by blast
  from le mem have "\<not> peers (snd h) > peers (snd cur)" by fastforce
  with cur ht show "updateFinalizedChains finalizedChains = Some \<lparr> toStart = [], toStop = [] \<rparr>"
    by (simp add: updateFinalizedChains_def Let_def)
qed

lemmas update_defs =
  updateChains_def updateFinalizedChains_def sortBy_def chainOf_def new_SyncChain_def
  peers_def isSyncing_def Let_def

theorem updateFinalizedChains_picks_fewest_witness:
  "updateChains [(1, chainOf 5 Stopped 0), (2, chainOf 1 Stopped 0)]
     = \<lparr> toStart = [(2, chainOf 1 Stopped 0)], toStop = [] \<rparr>
   \<and> peers (chainOf 5 Stopped 0) = 5 \<and> peers (chainOf 1 Stopped 0) = 1
   \<and> updateChains [(1, chainOf 1 Syncing 20), (2, chainOf 5 Stopped 0)]
     = \<lparr> toStart = [], toStop = [] \<rparr>
   \<and> updateFinalizedChains [] = None"
  using updateFinalizedChains_picks_fewest [of "[(1, chainOf 5 Stopped 0), (2, chainOf 1 Stopped 0)]"]
    updateFinalizedChains_picks_fewest [of "[(1, chainOf 1 Syncing 20), (2, chainOf 5 Stopped 0)]"]
    updateFinalizedChains_picks_fewest [of "[]"]
  by (simp add: update_defs)

end
